theory Spec2Isabelle
  imports Complex_Main "HOL-Library.Word"
begin

section \<open>Python values\<close>

text \<open>
  A Python \<^verbatim>\<open>str\<close> is a sequence of Unicode code points, modelled as a list of natural
  numbers; a \<^verbatim>\<open>bytes\<close> object is a list of 8-bit words. \<open>ustr\<close> turns an ASCII literal of
  the theory into such a string.
\<close>

type_synonym ustr = "nat list"
type_synonym byte = "8 word"

definition ustr :: "string \<Rightarrow> ustr" where
  "ustr s = map of_char s"

text \<open>
  The exceptions the modelled code can meet, all subclasses of \<^verbatim>\<open>Exception\<close>.
  \<open>HTTPError\<close>, \<open>ConnectionError\<close> and \<open>Timeout\<close> are the subclasses of
  \<^verbatim>\<open>requests.exceptions.RequestException\<close>; \<open>UnboundLocalError\<close> is the subclass of
  \<^verbatim>\<open>NameError\<close> that reading a local variable before its assignment raises.
\<close>

datatype py_exn =
    BadZipFile
  | UnboundLocalError
  | TypeError
  | KeyError
  | ZeroDivisionError
  | UnicodeDecodeError
  | RuntimeError
  | HTTPError
  | ConnectionError
  | Timeout
  | ClientError ustr

fun is_RequestException :: "py_exn \<Rightarrow> bool" where
  "is_RequestException HTTPError = True"
| "is_RequestException ConnectionError = True"
| "is_RequestException Timeout = True"
| "is_RequestException _ = False"

fun is_NameError :: "py_exn \<Rightarrow> bool" where
  "is_NameError UnboundLocalError = True"
| "is_NameError _ = False"

section \<open>Path normalisation: \<^verbatim>\<open>GitHubManager._clean_file_path\<close>\<close>

text \<open>
  \<^verbatim>\<open>
  def _clean_file_path(self, path, repo_name):
      parts = path.split('/')
      if parts and parts[0] == repo_name:
          return '/'.join(parts[1:])
      return path
  \<close>
  \<open>split_sep\<close> is \<^verbatim>\<open>str.split(sep)\<close> for a one-character separator (the empty string
  splits into one empty part), \<open>join_sep\<close> is \<^verbatim>\<open>sep.join(parts)\<close>.
\<close>

definition slash :: nat where
  "slash = 47"

fun split_sep :: "nat \<Rightarrow> ustr \<Rightarrow> ustr list" where
  "split_sep sep [] = [[]]"
| "split_sep sep (c # cs) =
     (if c = sep then [] # split_sep sep cs
      else (case split_sep sep cs of
              [] \<Rightarrow> [[c]]
            | p # ps \<Rightarrow> (c # p) # ps))"

fun join_sep :: "nat \<Rightarrow> ustr list \<Rightarrow> ustr" where
  "join_sep sep [] = []"
| "join_sep sep [p] = p"
| "join_sep sep (p # q # ps) = p @ sep # join_sep sep (q # ps)"

definition clean_file_path :: "ustr \<Rightarrow> ustr \<Rightarrow> ustr" where
  "clean_file_path path repo_name =
     (let parts = split_sep slash path in
      if parts \<noteq> [] \<and> hd parts = repo_name then join_sep slash (tl parts) else path)"

text \<open>
  The words of the specification: the first segment of a slash-separated path is what
  stands before its first slash, and removing it leaves what stands after that slash.
\<close>

definition first_segment :: "ustr \<Rightarrow> ustr" where
  "first_segment path = takeWhile (\<lambda>c. c \<noteq> slash) path"

definition without_first_segment :: "ustr \<Rightarrow> ustr" where
  "without_first_segment path = drop (Suc (length (first_segment path))) path"

section \<open>Content classification: \<^verbatim>\<open>GitHubManager._is_binary\<close>\<close>

text \<open>
  \<^verbatim>\<open>
  def _is_binary(self, content: bytes) -> bool:
      if b'\x00' in content:
          return True
      text_chars = len([b for b in content if 32 <= b <= 127 or b in (9, 10, 13)])
      return text_chars / len(content) < 0.7 if content else False
  \<close>
  The quotient \<^verbatim>\<open>text_chars / len(content)\<close> is Python's true division of two integers:
  the IEEE 754 double nearest to the exact quotient, ties to the even mantissa. The
  literal \<^verbatim>\<open>0.7\<close> is the double nearest to 7/10. A finite double is modelled by the
  rational number it denotes, so that \<open><\<close> on doubles is \<open><\<close> on rationals.

  For \<open>0 < a\<close> and \<open>0 < b\<close> the quotient lies in a binade \<open>[2^e, 2^(e+1))\<close>:
  \<open>up_shift a b\<close> is \<open>-e\<close> when \<open>a < b\<close>, \<open>down_shift a b\<close> is \<open>e\<close> when \<open>b \<le> a\<close>.
  The 53-bit mantissa is the quotient scaled into \<open>[2^52, 2^53)\<close> and rounded by
  \<open>rhe_div\<close> (round half to even). Overflow and subnormal numbers are not modelled:
  the quotients of \<open>_is_binary\<close> lie in \<open>[2^-63, 1]\<close>. The division is only evaluated
  for a non-empty \<open>content\<close> (the conditional expression), so \<open>b = 0\<close> does not arise.
\<close>

function up_shift :: "nat \<Rightarrow> nat \<Rightarrow> nat" where
  "up_shift a b = (if a = 0 \<or> b \<le> a then 0 else Suc (up_shift (2 * a) b))"
  by pat_completeness auto
termination
  by (relation "measure (\<lambda>(a, b). b - a)") auto

function down_shift :: "nat \<Rightarrow> nat \<Rightarrow> nat" where
  "down_shift a b = (if b = 0 \<or> a < 2 * b then 0 else Suc (down_shift a (2 * b)))"
  by pat_completeness auto
termination
  by (relation "measure (\<lambda>(a, b). a - b)") auto

definition rhe_div :: "nat \<Rightarrow> nat \<Rightarrow> nat" where
  "rhe_div n d =
     (let q = n div d; r = n mod d in
      if 2 * r < d then q
      else if d < 2 * r then q + 1
      else if even q then q else q + 1)"

definition py_truediv :: "nat \<Rightarrow> nat \<Rightarrow> rat" where
  "py_truediv a b =
     (if b \<le> a
      then (let j = down_shift a b in of_nat (rhe_div (a * 2 ^ 52) (b * 2 ^ j)) * 2 ^ j / 2 ^ 52)
      else (let j = up_shift a b in of_nat (rhe_div (a * 2 ^ (52 + j)) b) / 2 ^ (52 + j)))"

definition float_0_7 :: rat where
  "float_0_7 = py_truediv 7 10"

definition is_text_byte :: "byte \<Rightarrow> bool" where
  "is_text_byte b = (32 \<le> b \<and> b \<le> 127 \<or> b \<in> {9, 10, 13})"

definition is_binary :: "byte list \<Rightarrow> bool" where
  "is_binary content =
     (if 0 \<in> set content then True
      else (let text_chars = length (filter is_text_byte content) in
            if content \<noteq> [] then py_truediv text_chars (length content) < float_0_7 else False))"



section \<open>Secret redaction: \<^verbatim>\<open>GitHubManager._clean_code_content\<close>\<close>

text \<open>
  The character classes of the pattern: \<^verbatim>\<open>\s\<close>, \<^verbatim>\<open>\S\<close>, \<^verbatim>\<open>.\<close> (any character but
  newline) and a bracket class. For a \<^verbatim>\<open>str\<close> pattern \<^verbatim>\<open>\s\<close> is Unicode whitespace, the
  characters for which \<^verbatim>\<open>str.isspace\<close> holds.
\<close>

datatype cls = Space | NonSpace | Dot | OneOf "nat list"

definition is_space :: "nat \<Rightarrow> bool" where
  "is_space c = ((9 \<le> c \<and> c \<le> 13) \<or> (28 \<le> c \<and> c \<le> 32) \<or> c = 133 \<or> c = 160 \<or> c = 5760
     \<or> (8192 \<le> c \<and> c \<le> 8202) \<or> c = 8232 \<or> c = 8233 \<or> c = 8239 \<or> c = 8287 \<or> c = 12288)"

fun cls_match :: "cls \<Rightarrow> nat \<Rightarrow> bool" where
  "cls_match Space c = is_space c"
| "cls_match NonSpace c = (\<not> is_space c)"
| "cls_match Dot c = (c \<noteq> 10)"
| "cls_match (OneOf cs) c = (c \<in> set cs)"

text \<open>
  The fragment of regular expressions the pattern uses: a literal, one character of a
  class, greedy \<^verbatim>\<open>c*\<close> and \<^verbatim>\<open>c+\<close> and lazy \<^verbatim>\<open>c*?\<close> over a class, sequence, ordered
  alternative and a numbered capture group.
\<close>

datatype regex =
    Lit ustr
  | Set cls
  | Star cls
  | Plus cls
  | LazyStar cls
  | Seq regex regex
  | Alt regex regex
  | Group nat regex

type_synonym captures = "nat \<Rightarrow> ustr option"

text \<open>
  The matcher of \<^verbatim>\<open>re\<close> backtracks: a greedy repetition tries the longest run first, a
  lazy one the shortest, an alternative its left branch first. \<open>backtrack r (g, s)\<close> lists
  every way \<open>r\<close> matches a prefix of \<open>s\<close>, in the order the matcher tries them, each as the
  groups captured and the text left; the match \<^verbatim>\<open>re\<close> reports is the first of the list.
\<close>

fun greedy_rests :: "(nat \<Rightarrow> bool) \<Rightarrow> ustr \<Rightarrow> ustr list" where
  "greedy_rests p [] = [[]]"
| "greedy_rests p (x # xs) = (if p x then greedy_rests p xs @ [x # xs] else [x # xs])"

fun lazy_rests :: "(nat \<Rightarrow> bool) \<Rightarrow> ustr \<Rightarrow> ustr list" where
  "lazy_rests p [] = [[]]"
| "lazy_rests p (x # xs) = (x # xs) # (if p x then lazy_rests p xs else [])"

fun backtrack :: "regex \<Rightarrow> captures \<times> ustr \<Rightarrow> (captures \<times> ustr) list" where
  "backtrack (Lit l) (g, s) = (if take (length l) s = l then [(g, drop (length l) s)] else [])"
| "backtrack (Set c) (g, s) =
     (case s of [] \<Rightarrow> [] | x # xs \<Rightarrow> if cls_match c x then [(g, xs)] else [])"
| "backtrack (Star c) (g, s) = map (Pair g) (greedy_rests (cls_match c) s)"
| "backtrack (Plus c) (g, s) =
     (case s of [] \<Rightarrow> []
      | x # xs \<Rightarrow> if cls_match c x then map (Pair g) (greedy_rests (cls_match c) xs) else [])"
| "backtrack (LazyStar c) (g, s) = map (Pair g) (lazy_rests (cls_match c) s)"
| "backtrack (Seq a b) st = concat (map (backtrack b) (backtrack a st))"
| "backtrack (Alt a b) st = backtrack a st @ backtrack b st"
| "backtrack (Group n r) (g, s) =
     map (\<lambda>(g', s'). (g'(n \<mapsto> take (length s - length s') s), s')) (backtrack r (g, s))"

fun first_result :: "'a list \<Rightarrow> 'a option" where
  "first_result [] = None"
| "first_result (m # _) = Some m"

definition re_match :: "regex \<Rightarrow> ustr \<Rightarrow> (captures \<times> ustr) option" where
  "re_match r s = first_result (backtrack r (Map.empty, s))"

text \<open>
  \<^verbatim>\<open>pattern.sub(template, content)\<close>: scanning from the left, every match is replaced by
  the expanded template and the scan goes on after the match; a character at which the
  pattern does not match is copied. (After an empty match one character is copied, as
  Python 3.7 and later do; the pattern below never matches the empty string.) The template
  \<^verbatim>\<open>\1{replacement}\<close> is group 1 followed by the replacement, which holds no backslash.
\<close>

datatype template_item = GroupRef nat | Literal ustr

fun expand_item :: "captures \<Rightarrow> template_item \<Rightarrow> ustr" where
  "expand_item g (GroupRef n) = (case g n of None \<Rightarrow> [] | Some t \<Rightarrow> t)"
| "expand_item g (Literal l) = l"

definition expand :: "captures \<Rightarrow> template_item list \<Rightarrow> ustr" where
  "expand g t = concat (map (expand_item g) t)"

function re_sub :: "regex \<Rightarrow> template_item list \<Rightarrow> ustr \<Rightarrow> ustr" where
  "re_sub r t s =
     (case re_match r s of
        Some (g, rest) \<Rightarrow>
          if length rest < length s then expand g t @ re_sub r t rest
          else expand g t @ (case s of [] \<Rightarrow> [] | c # cs \<Rightarrow> c # re_sub r t cs)
      | None \<Rightarrow> (case s of [] \<Rightarrow> [] | c # cs \<Rightarrow> c # re_sub r t cs))"
  by pat_completeness auto
termination
  by (relation "measure (\<lambda>(r, t, s). length s)") auto

declare re_sub.simps [simp del]

text \<open>
  \<^verbatim>\<open>
  def _clean_code_content(self, content, file_extension):
      sensitive_var = "authKey"
      replacements = {
          '.kt': 'System.getenv("REPLACEMENT_KEY")',
          '.java': 'System.getenv("REPLACEMENT_KEY")',
          '.py': 'os.getenv("REPLACEMENT_KEY")',
          '.js': 'process.env.REPLACEMENT_KEY',
          '.ts': 'process.env.REPLACEMENT_KEY'
      }
      pattern = re.compile(rf'({sensitive_var}\s*=\s*)(["\'].*?["\']|\S+)')
      if replacement := replacements.get(file_extension):
          return pattern.sub(rf'\1{replacement}', content)
      return content
  \<close>
\<close>

definition sensitive_var :: ustr where
  "sensitive_var = ustr ''authKey''"

definition replacements :: "ustr \<Rightarrow> ustr option" where
  "replacements = map_of
     [(ustr ''.kt'', ustr ''System.getenv(\"REPLACEMENT_KEY\")''),
      (ustr ''.java'', ustr ''System.getenv(\"REPLACEMENT_KEY\")''),
      (ustr ''.py'', ustr ''os.getenv(\"REPLACEMENT_KEY\")''),
      (ustr ''.js'', ustr ''process.env.REPLACEMENT_KEY''),
      (ustr ''.ts'', ustr ''process.env.REPLACEMENT_KEY'')]"

definition quote_chars :: cls where
  "quote_chars = OneOf [34, 39]"

definition pattern :: regex where
  "pattern =
     Seq (Group 1 (Seq (Lit sensitive_var) (Seq (Star Space) (Seq (Lit (ustr ''='')) (Star Space)))))
         (Group 2 (Alt (Seq (Set quote_chars) (Seq (LazyStar Dot) (Set quote_chars)))
                       (Plus NonSpace)))"

definition clean_code_content :: "ustr \<Rightarrow> ustr \<Rightarrow> ustr" where
  "clean_code_content content file_extension =
     (case replacements file_extension of
        Some replacement \<Rightarrow>
          if replacement \<noteq> [] then re_sub pattern [GroupRef 1, Literal replacement] content
          else content
      | None \<Rightarrow> content)"


subsection \<open>Redaction in the words of the specification\<close>

text \<open>
  The specification describes one scan of the text: an assignment is the name
  \<open>authKey\<close>, optional whitespace, \<open>=\<close>, optional whitespace and a value; the value is a
  quoted literal (from a quote to the next quote on the same line) or else a token of
  non-whitespace characters. \<open>assignment_at s\<close> is the left-hand side and the text after
  the value when \<open>s\<close> starts with an assignment; \<open>redact\<close> replaces the value of every
  assignment it meets from left to right and copies everything else.
  \<open>values_delimited s\<close> holds when every value that \<open>redact\<close> replaces in \<open>s\<close> is followed
  by whitespace or ends the text.
\<close>

definition is_quote :: "nat \<Rightarrow> bool" where
  "is_quote c = (c = 34 \<or> c = 39)"

fun quoted_end :: "ustr \<Rightarrow> ustr option" where
  "quoted_end [] = None"
| "quoted_end (c # cs) =
     (if is_quote c then Some cs else if c = 10 then None else quoted_end cs)"

definition token_end :: "ustr \<Rightarrow> ustr" where
  "token_end s = dropWhile (\<lambda>c. \<not> is_space c) s"

definition value_end :: "ustr \<Rightarrow> ustr option" where
  "value_end s =
     (case s of
        [] \<Rightarrow> None
      | c # cs \<Rightarrow>
          if is_space c then None
          else if is_quote c then
            (case quoted_end cs of Some rest \<Rightarrow> Some rest | None \<Rightarrow> Some (token_end cs))
          else Some (token_end cs))"

definition assignment_at :: "ustr \<Rightarrow> (ustr \<times> ustr) option" where
  "assignment_at s =
     (if take 7 s = ustr ''authKey'' then
        (let after_name = drop 7 s; ws1 = takeWhile is_space after_name in
         case dropWhile is_space after_name of
           [] \<Rightarrow> None
         | e # after_eq \<Rightarrow>
             if e = 61 then
               (let ws2 = takeWhile is_space after_eq in
                case value_end (dropWhile is_space after_eq) of
                  None \<Rightarrow> None
                | Some rest \<Rightarrow> Some (ustr ''authKey'' @ ws1 @ [61] @ ws2, rest))
             else None)
      else None)"

lemma quoted_end_shorter: "quoted_end s = Some r \<Longrightarrow> length r < length s"
  by (induction s) (auto split: if_splits)

lemma token_end_le: "length (token_end s) \<le> length s"
  by (simp add: token_end_def length_dropWhile_le)

lemma value_end_shorter: "value_end s = Some r \<Longrightarrow> length r < length s"
  using token_end_le
  by (cases s) (auto simp: value_end_def le_imp_less_Suc split: if_splits option.splits
      dest!: quoted_end_shorter)

lemma assignment_at_shorter:
  assumes "assignment_at s = Some (lhs, rest)"
  shows "length rest < length s"
proof -
  from assms obtain e after_eq where
    d: "dropWhile is_space (drop 7 s) = e # after_eq"
    and v: "value_end (dropWhile is_space after_eq) = Some rest"
    by (auto simp: assignment_at_def Let_def split: if_splits list.splits option.splits)
  have "length rest < length (dropWhile is_space after_eq)" using v by (rule value_end_shorter)
  also have "\<dots> \<le> length after_eq" by (rule length_dropWhile_le)
  also have "\<dots> \<le> length (dropWhile is_space (drop 7 s))" by (simp add: d)
  also have "\<dots> \<le> length (drop 7 s)" by (rule length_dropWhile_le)
  also have "\<dots> \<le> length s" by simp
  finally show ?thesis .
qed

function redact :: "ustr \<Rightarrow> ustr \<Rightarrow> ustr" where
  "redact rep [] = []"
| "redact rep (c # cs) =
     (case assignment_at (c # cs) of
        Some (lhs, rest) \<Rightarrow> lhs @ rep @ redact rep rest
      | None \<Rightarrow> c # redact rep cs)"
  by pat_completeness auto
termination
  by (relation "measure (\<lambda>(rep, s). length s)") (auto dest: assignment_at_shorter)

function values_delimited :: "ustr \<Rightarrow> bool" where
  "values_delimited [] = True"
| "values_delimited (c # cs) =
     (case assignment_at (c # cs) of
        None \<Rightarrow> values_delimited cs
      | Some (lhs, rest) \<Rightarrow> (rest = [] \<or> is_space (hd rest)) \<and> values_delimited rest)"
  by pat_completeness auto
termination
  by (relation "measure length") (auto dest: assignment_at_shorter)

declare redact.simps(2) [simp del] values_delimited.simps(2) [simp del]

text \<open>The two groups of the pattern.\<close>

definition lhs_regex :: regex where
  "lhs_regex = Seq (Lit sensitive_var) (Seq (Star Space) (Seq (Lit (ustr ''='')) (Star Space)))"

definition value_regex :: regex where
  "value_regex = Alt (Seq (Set quote_chars) (Seq (LazyStar Dot) (Set quote_chars))) (Plus NonSpace)"


section \<open>The push pipeline: \<^verbatim>\<open>GitHubManager.push_zip_to_repo\<close>\<close>

subsection \<open>The world outside: the user interface, the repository API, the libraries\<close>

text \<open>
  Every call that leaves the program is recorded in a trace, in the order the calls are
  made: the calls on the optional Streamlit \<^verbatim>\<open>status_container\<close> and its widgets, the
  \<^verbatim>\<open>requests.post\<close> that creates the repository and the \<^verbatim>\<open>requests.put\<close> that writes one
  file. The user interface calls are assumed not to raise.
\<close>

datatype ui_call =
    UiHeader
  | UiCreatingRepository ustr
  | UiRepositoryFailed
  | UiProgressBar
  | UiProgress nat nat
  | UiRow ustr
  | UiAnalyzing
  | UiDetectedBinary
  | UiProcessingText
  | UiFallbackBinary
  | UiUploading
  | UiUploaded
  | UiSkipped
  | UiFailed py_exn
  | UiProgressDone
  | UiPushCompleted nat nat
  | UiInvalidZip
  | UiProcessingError py_exn

record put_request =
  put_owner :: ustr
  put_repo :: ustr
  put_path :: ustr
  put_content :: ustr
  put_encoding :: ustr
  put_message :: ustr

datatype event =
    Ui ui_call
  | Post ustr bool
  | Put put_request

text \<open>
  A response of the repository API: its status code, and what evaluating
  \<^verbatim>\<open>response.json()['html_url']\<close> gives (an exception, or the value, \<open>None\<close> for a JSON
  null). The API is a parameter of the model: \<open>post_repos\<close> answers the request that
  creates a repository, \<open>put_contents\<close> the request that writes a file, and its answer may
  depend on everything that happened before. Either call may raise instead of answering.
\<close>

record http_response =
  status_code :: nat
  html_url :: "py_exn + ustr option"

record remote =
  post_repos :: "ustr \<Rightarrow> bool \<Rightarrow> py_exn + http_response"
  put_contents :: "event list \<Rightarrow> put_request \<Rightarrow> py_exn + http_response"

text \<open>
  An entry of an opened archive (\<^verbatim>\<open>zipfile.ZipInfo\<close>): its name, what \<^verbatim>\<open>is_dir()\<close>
  answers, and what \<^verbatim>\<open>zip_ref.read(file_info)\<close> gives, the bytes or an exception (a bad
  checksum, an encrypted entry). The library functions the pipeline calls are parameters
  too: \<open>zipfile_open\<close> is \<^verbatim>\<open>zipfile.ZipFile(io.BytesIO(zip_content)).infolist()\<close>, which raises
  \<open>BadZipFile\<close> on bytes that are no archive; \<open>utf8_decode\<close> is \<^verbatim>\<open>content.decode('utf-8')\<close>,
  with \<open>None\<close> for \<^verbatim>\<open>UnicodeDecodeError\<close>; \<open>utf8_encode\<close>, \<open>b64encode\<close> (already decoded to
  ASCII text) and \<open>splitext_ext\<close> (\<^verbatim>\<open>os.path.splitext(p)[1]\<close>) are total.
\<close>

record zip_info =
  filename :: ustr
  is_dir :: bool
  payload :: "py_exn + byte list"

record lib =
  zipfile_open :: "byte list \<Rightarrow> py_exn + zip_info list"
  utf8_decode :: "byte list \<Rightarrow> ustr option"
  utf8_encode :: "ustr \<Rightarrow> byte list"
  b64encode :: "byte list \<Rightarrow> ustr"
  splitext_ext :: "ustr \<Rightarrow> ustr"

datatype container = Container
datatype placeholder = Placeholder

text \<open>A call on a widget that is only made \<^verbatim>\<open>if widget:\<close>; a widget object is truthy.\<close>

definition ui :: "'w option \<Rightarrow> ui_call \<Rightarrow> event list \<Rightarrow> event list" where
  "ui widget call tr = (if widget \<noteq> None then tr @ [Ui call] else tr)"

text \<open>\<^verbatim>\<open>response.raise_for_status()\<close> raises \<open>HTTPError\<close> for a status from 400 to 599.\<close>

definition raise_for_status :: "http_response \<Rightarrow> bool" where
  "raise_for_status response = (400 \<le> status_code response \<and> status_code response < 600)"

subsection \<open>\<^verbatim>\<open>create_repository\<close> and \<^verbatim>\<open>create_file_with_encoding\<close>\<close>

text \<open>
  \<^verbatim>\<open>
  def create_repository(self, repo_name, private=False):
      url = f"{self.api_base}/user/repos"
      data = {"name": repo_name, "private": private}
      try:
          response = requests.post(url, json=data, headers=self.headers)
          response.raise_for_status()
          return response.json()['html_url']
      except requests.exceptions.RequestException as e:
          return None

  def create_file_with_encoding(self, repo_owner, repo_name, file_path, content,
                                encoding, message="Initial commit"):
      url = f"{self.api_base}/repos/{repo_owner}/{repo_name}/contents/{file_path}"
      data = {"message": message, "content": content, "encoding": encoding}
      try:
          response = requests.put(url, json=data, headers=self.headers)
          response.raise_for_status()
          return True
      except requests.exceptions.RequestException as e:
          return False
  \<close>
  Only a \<^verbatim>\<open>RequestException\<close> is caught; any other exception leaves the function.
\<close>

definition create_repository ::
  "remote \<Rightarrow> ustr \<Rightarrow> bool \<Rightarrow> event list \<Rightarrow> (py_exn + ustr option) \<times> event list" where
  "create_repository api repo_name private tr =
     (let tr' = tr @ [Post repo_name private] in
      case post_repos api repo_name private of
        Inl e \<Rightarrow> (if is_RequestException e then Inr None else Inl e, tr')
      | Inr response \<Rightarrow>
          if raise_for_status response then (Inr None, tr')
          else (case html_url response of
                  Inl e \<Rightarrow> (if is_RequestException e then Inr None else Inl e, tr')
                | Inr url \<Rightarrow> (Inr url, tr')))"

definition create_file_with_encoding ::
  "remote \<Rightarrow> ustr \<Rightarrow> ustr \<Rightarrow> ustr \<Rightarrow> ustr \<Rightarrow> ustr \<Rightarrow> ustr \<Rightarrow> event list
     \<Rightarrow> (py_exn + bool) \<times> event list" where
  "create_file_with_encoding api repo_owner repo_name file_path content encoding message tr =
     (let request = \<lparr>put_owner = repo_owner, put_repo = repo_name, put_path = file_path,
                      put_content = content, put_encoding = encoding, put_message = message\<rparr>;
          tr' = tr @ [Put request] in
      case put_contents api tr request of
        Inl e \<Rightarrow> (if is_RequestException e then Inr False else Inl e, tr')
      | Inr response \<Rightarrow> (Inr (\<not> raise_for_status response), tr'))"

subsection \<open>\<^verbatim>\<open>_process_file\<close>\<close>

text \<open>
  \<^verbatim>\<open>
  def _process_file(self, repo_owner, repo_name, file_info, zip_ref,
                    commit_message, status_placeholder):
      file_path = self._clean_file_path(file_info.filename, repo_name)
      content = zip_ref.read(file_info)
      if status_placeholder: status_placeholder.info("Analyzing file...")
      if self._is_binary(content):
          if status_placeholder: status_placeholder.info("Detected binary file...")
          encoded_content = base64.b64encode(content).decode('ascii')
          encoding = "base64"
      else:
          if status_placeholder: status_placeholder.info("Processing text file...")
          try:
              decoded_content = content.decode('utf-8')
              file_ext = os.path.splitext(file_path)[1]
              cleaned_content = self._clean_code_content(decoded_content, file_ext)
              encoded_content = base64.b64encode(cleaned_content.encode('utf-8')).decode('ascii')
              encoding = "base64"
          except UnicodeDecodeError:
              if status_placeholder: status_placeholder.warning("Fallback to binary encoding")
              encoded_content = base64.b64encode(content).decode('ascii')
              encoding = "base64"
      if status_placeholder: status_placeholder.info("Uploading...")
      return self.create_file_with_encoding(repo_owner, repo_name, file_path,
                                            encoded_content, encoding, commit_message)
  \<close>
\<close>

definition process_file ::
  "lib \<Rightarrow> remote \<Rightarrow> ustr \<Rightarrow> ustr \<Rightarrow> zip_info \<Rightarrow> ustr \<Rightarrow> placeholder option \<Rightarrow> event list
     \<Rightarrow> (py_exn + bool) \<times> event list" where
  "process_file l api repo_owner repo_name file_info commit_message status_placeholder tr =
     (let file_path = clean_file_path (filename file_info) repo_name in
      case payload file_info of
        Inl e \<Rightarrow> (Inl e, tr)
      | Inr content \<Rightarrow>
          (let tr1 = ui status_placeholder UiAnalyzing tr;
               (encoded_content, tr2) =
                 (if is_binary content
                  then (b64encode l content, ui status_placeholder UiDetectedBinary tr1)
                  else (let tr' = ui status_placeholder UiProcessingText tr1 in
                        case utf8_decode l content of
                          Some decoded_content \<Rightarrow>
                            (let file_ext = splitext_ext l file_path;
                                 cleaned_content = clean_code_content decoded_content file_ext
                             in (b64encode l (utf8_encode l cleaned_content), tr'))
                        | None \<Rightarrow>
                            (b64encode l content, ui status_placeholder UiFallbackBinary tr')));
               tr3 = ui status_placeholder UiUploading tr2
           in create_file_with_encoding api repo_owner repo_name file_path encoded_content
                (ustr ''base64'') commit_message tr3))"

subsection \<open>\<^verbatim>\<open>push_zip_to_repo\<close>\<close>

text \<open>
  \<^verbatim>\<open>
  def push_zip_to_repo(self, repo_owner, repo_name, zip_content,
                       commit_message="Initial commit", status_container=None):
      if status_container: ... header ...
      total_files = 0; success_count = 0; error_count = 0
      with zipfile.ZipFile(io.BytesIO(zip_content), 'r') as zip_ref:
          total_files = sum(1 for f in zip_ref.infolist() if not f.is_dir())
      if status_container: status_container.info(f"Creating repository {repo_name}...")
      if not self.create_repository(repo_name, private=False):
          if status_container: status_container.error("Repository creation failed!")
          return False
      try:
          with zipfile.ZipFile(io.BytesIO(zip_content), 'r') as zip_ref:
              progress_bar = status_container.progress(0) if status_container else None
              current_file = 0
              for file_info in zip_ref.infolist():
                  if file_info.is_dir(): continue
                  current_file += 1
                  file_path = self._clean_file_path(file_info.filename, repo_name)
                  if not file_path: continue
                  if status_container:
                      progress = current_file / total_files
                      progress_bar.progress(min(progress, 1.0))
                  if status_container:
                      file_col, status_col, _ = status_container.columns([3, 5, 2])
                      file_col.markdown(f"`{file_path}`")
                      status_placeholder = status_col.empty()
                  try:
                      success = self._process_file(repo_owner, repo_name, file_info,
                                              zip_ref, commit_message, status_placeholder)
                      if success:
                          success_count += 1
                          if status_container: status_placeholder.success("Uploaded")
                      else:
                          error_count += 1
                          if status_container: status_placeholder.warning("Skipped")
                  except Exception as e:
                      error_count += 1
                      if status_container: status_placeholder.error(f"Failed: {str(e)}")
                      continue
              if status_container:
                  progress_bar.empty()
                  status_container.success(f"Push completed! ... {success_count} ... {error_count} ...")
              return True
      except zipfile.BadZipFile:
          if status_container: status_container.error("Invalid ZIP file format")
          return False
      except Exception as e:
          if status_container: status_container.error(f"Error processing ZIP file: {str(e)}")
          return False
  \<close>
  The local variables and the trace are the state. \<open>status_placeholder\<close> is a local
  variable that is assigned only inside \<^verbatim>\<open>if status_container:\<close>; \<open>None\<close> stands for the
  unbound variable, and reading it then raises \<open>UnboundLocalError\<close> (while the arguments of
  the call of \<^verbatim>\<open>_process_file\<close> are evaluated, so inside the inner \<^verbatim>\<open>try\<close>).
\<close>

record push_state =
  total_files :: nat
  success_count :: nat
  error_count :: nat
  current_file :: nat
  status_placeholder :: "placeholder option"
  events :: "event list"

text \<open>
  One turn of the \<^verbatim>\<open>for\<close> loop. The result is \<open>Inr\<close> the state after the turn, or \<open>Inl\<close> an
  exception that leaves the loop together with the state it leaves behind. The division
  \<^verbatim>\<open>current_file / total_files\<close> stands outside the inner \<^verbatim>\<open>try\<close>; it raises
  \<open>ZeroDivisionError\<close> for \<open>total_files = 0\<close>.
\<close>

definition loop_body ::
  "lib \<Rightarrow> remote \<Rightarrow> ustr \<Rightarrow> ustr \<Rightarrow> ustr \<Rightarrow> container option \<Rightarrow> zip_info \<Rightarrow> push_state
     \<Rightarrow> (py_exn \<times> push_state) + push_state" where
  "loop_body l api repo_owner repo_name commit_message status_container file_info st =
     (if is_dir file_info then Inr st
      else
        (let st1 = st\<lparr>current_file := current_file st + 1\<rparr>;
             file_path = clean_file_path (filename file_info) repo_name in
         if file_path = [] then Inr st1
         else if status_container \<noteq> None \<and> total_files st1 = 0 then Inl (ZeroDivisionError, st1)
         else
           (let st2 = st1\<lparr>events :=
                        ui status_container (UiProgress (current_file st1) (total_files st1))
                          (events st1)\<rparr>;
                st3 = (if status_container \<noteq> None
                       then st2\<lparr>events := events st2 @ [Ui (UiRow file_path)],
                                status_placeholder := Some Placeholder\<rparr>
                       else st2)
            in case status_placeholder st3 of
                 None \<Rightarrow>
                   Inr (st3\<lparr>error_count := error_count st3 + 1,
                           events := ui status_container (UiFailed UnboundLocalError) (events st3)\<rparr>)
               | Some p \<Rightarrow>
                   (case process_file l api repo_owner repo_name file_info commit_message
                           (Some p) (events st3) of
                      (Inr success, tr) \<Rightarrow>
                        if success
                        then Inr (st3\<lparr>success_count := success_count st3 + 1,
                                     events := ui status_container UiUploaded tr\<rparr>)
                        else Inr (st3\<lparr>error_count := error_count st3 + 1,
                                     events := ui status_container UiSkipped tr\<rparr>)
                    | (Inl e, tr) \<Rightarrow>
                        Inr (st3\<lparr>error_count := error_count st3 + 1,
                                events := ui status_container (UiFailed e) tr\<rparr>)))))"

fun for_loop ::
  "lib \<Rightarrow> remote \<Rightarrow> ustr \<Rightarrow> ustr \<Rightarrow> ustr \<Rightarrow> container option \<Rightarrow> zip_info list \<Rightarrow> push_state
     \<Rightarrow> (py_exn \<times> push_state) + push_state" where
  "for_loop l api repo_owner repo_name commit_message status_container [] st = Inr st"
| "for_loop l api repo_owner repo_name commit_message status_container (file_info # infos) st =
     (case loop_body l api repo_owner repo_name commit_message status_container file_info st of
        Inl raised \<Rightarrow> Inl raised
      | Inr st' \<Rightarrow> for_loop l api repo_owner repo_name commit_message status_container infos st')"

text \<open>
  The whole function: its result (\<open>Inl\<close> an exception that leaves it, \<open>Inr\<close> the value it
  returns) and the state at that moment. A repository address is falsy when it is \<open>None\<close>
  or the empty string.
\<close>

definition push_zip_to_repo ::
  "lib \<Rightarrow> remote \<Rightarrow> ustr \<Rightarrow> ustr \<Rightarrow> byte list \<Rightarrow> ustr \<Rightarrow> container option
     \<Rightarrow> (py_exn + bool) \<times> push_state" where
  "push_zip_to_repo l api repo_owner repo_name zip_content commit_message status_container =
     (let st0 = \<lparr>total_files = 0, success_count = 0, error_count = 0, current_file = 0,
                  status_placeholder = None, events = ui status_container UiHeader []\<rparr> in
      case zipfile_open l zip_content of
        Inl e \<Rightarrow> (Inl e, st0)
      | Inr counted \<Rightarrow>
          (let st1 = st0\<lparr>total_files := length (filter (\<lambda>f. \<not> is_dir f) counted)\<rparr>;
               tr1 = ui status_container (UiCreatingRepository repo_name) (events st1);
               (created, tr2) = create_repository api repo_name False tr1;
               st2 = st1\<lparr>events := tr2\<rparr>
           in case created of
                Inl e \<Rightarrow> (Inl e, st2)
              | Inr address \<Rightarrow>
                  if address = None \<or> address = Some []
                  then (Inr False, st2\<lparr>events := ui status_container UiRepositoryFailed tr2\<rparr>)
                  else
                    (case zipfile_open l zip_content of
                       Inl e \<Rightarrow>
                         (Inr False,
                          st2\<lparr>events := ui status_container
                            (if e = BadZipFile then UiInvalidZip else UiProcessingError e) tr2\<rparr>)
                     | Inr infos \<Rightarrow>
                         (let st3 = st2\<lparr>events := ui status_container UiProgressBar tr2\<rparr> in
                          case for_loop l api repo_owner repo_name commit_message
                                 status_container infos st3 of
                            Inl (e, st4) \<Rightarrow>
                              (Inr False,
                               st4\<lparr>events := ui status_container
                                 (if e = BadZipFile then UiInvalidZip else UiProcessingError e)
                                 (events st4)\<rparr>)
                          | Inr st4 \<Rightarrow>
                              (Inr True,
                               st4\<lparr>events :=
                                 ui status_container
                                   (UiPushCompleted (success_count st4) (error_count st4))
                                   (ui status_container UiProgressDone (events st4))\<rparr>)))))"

text \<open>
  The words of the specification: an entry is attempted when it is no directory and its
  normalised path is not empty; a file write is a \<open>Put\<close> event, the creation of the
  repository a \<open>Post\<close> event, the tally the final \<open>UiPushCompleted\<close> message.
\<close>

definition attempted :: "ustr \<Rightarrow> zip_info \<Rightarrow> bool" where
  "attempted repo_name file_info =
     (\<not> is_dir file_info \<and> clean_file_path (filename file_info) repo_name \<noteq> [])"

fun is_put :: "event \<Rightarrow> bool" where
  "is_put (Put _) = True"
| "is_put _ = False"

fun is_post :: "event \<Rightarrow> bool" where
  "is_post (Post _ _) = True"
| "is_post _ = False"

fun is_tally :: "event \<Rightarrow> bool" where
  "is_tally (Ui (UiPushCompleted _ _)) = True"
| "is_tally _ = False"

subsection \<open>An entry whose processing raises\<close>
text \<open>
  The words of the specification, "an unexpected exception raised while processing a
  single entry": at the call of \<^verbatim>\<open>_process_file\<close> either \<open>status_placeholder\<close> is unbound, or
  an exception leaves \<^verbatim>\<open>_process_file\<close>. \<open>placeholder_at_call\<close> and \<open>events_at_call\<close> are the
  variable and the trace at that call.
\<close>

definition placeholder_at_call :: "container option \<Rightarrow> push_state \<Rightarrow> placeholder option" where
  "placeholder_at_call status_container st =
     (if status_container \<noteq> None then Some Placeholder else status_placeholder st)"

definition events_at_call :: "container option \<Rightarrow> ustr \<Rightarrow> zip_info \<Rightarrow> push_state \<Rightarrow> event list" where
  "events_at_call status_container repo_name file_info st =
     (if status_container \<noteq> None
      then events st @ [Ui (UiProgress (current_file st + 1) (total_files st)),
                        Ui (UiRow (clean_file_path (filename file_info) repo_name))]
      else events st)"

definition processing_raises ::
  "lib \<Rightarrow> remote \<Rightarrow> ustr \<Rightarrow> ustr \<Rightarrow> ustr \<Rightarrow> container option \<Rightarrow> zip_info \<Rightarrow> push_state \<Rightarrow> bool" where
  "processing_raises l api repo_owner repo_name commit_message status_container file_info st =
     (case placeholder_at_call status_container st of
        None \<Rightarrow> True
      | Some p \<Rightarrow>
          isl (fst (process_file l api repo_owner repo_name file_info commit_message (Some p)
                      (events_at_call status_container repo_name file_info st))))"

subsection \<open>A small world to run the pipeline in\<close>

text \<open>
  An archive of a directory and two files, the second of which cannot be read; an API
  that creates the repository (or cannot be reached) and accepts every file; library
  stand-ins that take the bytes \<open>PK\<close> for that archive and everything else for no archive.
\<close>

definition example_infos :: "zip_info list" where
  "example_infos =
     [\<lparr>filename = ustr ''repo/'', is_dir = True, payload = Inr []\<rparr>,
      \<lparr>filename = ustr ''repo/a.bin'', is_dir = False, payload = Inr [1, 0, 2]\<rparr>,
      \<lparr>filename = ustr ''repo/b.bin'', is_dir = False, payload = Inl RuntimeError\<rparr>]"

definition example_lib :: lib where
  "example_lib =
     \<lparr>zipfile_open = (\<lambda>zip_content. if zip_content = [80, 75] then Inr example_infos
                                      else Inl BadZipFile),
      utf8_decode = (\<lambda>content. None),
      utf8_encode = (\<lambda>s. []),
      b64encode = map unat,
      splitext_ext = (\<lambda>path. [])\<rparr>"

definition example_api :: "bool \<Rightarrow> remote" where
  "example_api reachable =
     \<lparr>post_repos = (\<lambda>repo_name private.
        if reachable
        then Inr \<lparr>status_code = 201, html_url = Inr (Some (ustr ''https://github.com/o/repo''))\<rparr>
        else Inl ConnectionError),
      put_contents = (\<lambda>tr request. Inr \<lparr>status_code = 201, html_url = Inl KeyError\<rparr>)\<rparr>"

text \<open>
  The state in which the loop over the entries starts, once the archive is counted and
  the repository created; and an archive whose first file cannot be read and whose second
  can, with a library that opens every input as that archive.
\<close>

definition state_before_loop :: "container option \<Rightarrow> ustr \<Rightarrow> zip_info list \<Rightarrow> push_state" where
  "state_before_loop status_container repo_name infos =
     \<lparr>total_files = length (filter (\<lambda>f. \<not> is_dir f) infos), success_count = 0,
      error_count = 0, current_file = 0, status_placeholder = None,
      events = ui status_container UiProgressBar
                 (ui status_container (UiCreatingRepository repo_name)
                    (ui status_container UiHeader []) @ [Post repo_name False])\<rparr>"

definition unreadable_entry :: zip_info where
  "unreadable_entry =
     \<lparr>filename = ustr ''repo/b.bin'', is_dir = False, payload = Inl RuntimeError\<rparr>"

definition readable_entry :: zip_info where
  "readable_entry = \<lparr>filename = ustr ''repo/a.bin'', is_dir = False, payload = Inr [1, 0, 2]\<rparr>"

definition failure_first_lib :: lib where
  "failure_first_lib =
     \<lparr>zipfile_open = (\<lambda>zip_content. Inr [unreadable_entry, readable_entry]),
      utf8_decode = (\<lambda>content. None),
      utf8_encode = (\<lambda>s. []),
      b64encode = map unat,
      splitext_ext = (\<lambda>path. [])\<rparr>"

section \<open>The model call: \<^verbatim>\<open>get_completion\<close> and \<^verbatim>\<open>get_response\<close>\<close>

text \<open>
  The reply of the Converse API is a message: a role and a list of content blocks, each
  block a dictionary with the key \<^verbatim>\<open>text\<close> or the key \<^verbatim>\<open>toolUse\<close>; the input of a tool use
  is a JSON object. The call itself is a parameter \<open>bedrock\<close>, from the request to the
  message or the exception raised. What the functions print is not part of what they
  return and is left out.
\<close>

datatype json =
    JNull
  | JBool bool
  | JNumber int
  | JString ustr
  | JArray "json list"
  | JObject "(ustr \<times> json) list"

record tool_use =
  toolUseId :: ustr
  tool_name :: ustr
  input :: "(ustr \<times> json) list"

datatype content_block = TextBlock ustr | ToolUseBlock tool_use

record message =
  message_role :: ustr
  message_content :: "content_block list"

record chat_message =
  chat_role :: ustr
  chat_content :: ustr

record converse_api_params =
  params_prompt :: ustr
  params_system :: "ustr option"

fun is_ClientError :: "py_exn \<Rightarrow> bool" where
  "is_ClientError (ClientError _) = True"
| "is_ClientError _ = False"

text \<open>The last three messages of the history, one per line as \<^verbatim>\<open>role: content\<close>.\<close>

definition history_context :: "chat_message list option \<Rightarrow> ustr" where
  "history_context chat_history =
     (case chat_history of
        None \<Rightarrow> []
      | Some h \<Rightarrow>
          (if 0 < length h
           then concat (map (\<lambda>m. chat_role m @ ustr '': '' @ chat_content m @ [10])
                          (if 3 < length h then drop (length h - 3) h else h))
           else []))"

definition full_prompt :: "ustr \<Rightarrow> chat_message list option \<Rightarrow> ustr" where
  "full_prompt prompt chat_history =
     (if history_context chat_history \<noteq> []
      then history_context chat_history @ [10] @ prompt
      else prompt)"

definition converse_params ::
  "ustr \<Rightarrow> chat_message list option \<Rightarrow> ustr option \<Rightarrow> converse_api_params" where
  "converse_params prompt chat_history system_prompt =
     \<lparr>params_prompt = full_prompt prompt chat_history,
      params_system = (case system_prompt of
                         None \<Rightarrow> None
                       | Some s \<Rightarrow> (if s \<noteq> [] then Some s else None))\<rparr>"

text \<open>
  What \<^verbatim>\<open>get_completion\<close> returns: \<^verbatim>\<open>None\<close>, the input of a tool use, or the dictionary
  \<^verbatim>\<open>{"request_type": "generic_request", "response": response_message}\<close>.
\<close>

datatype completion = ToolInput "(ustr \<times> json) list" | GenericRequest message

fun is_tool_use :: "content_block \<Rightarrow> bool" where
  "is_tool_use (ToolUseBlock _) = True"
| "is_tool_use (TextBlock _) = False"

text \<open>
  \<^verbatim>\<open>next(..., None)\<close> is \<open>find\<close>; subscripting the \<^verbatim>\<open>None\<close> it gives when no block has the key
  raises \<^verbatim>\<open>TypeError\<close>, which \<^verbatim>\<open>except ClientError\<close> does not catch.
\<close>

definition get_completion ::
  "(converse_api_params \<Rightarrow> py_exn + message) \<Rightarrow> ustr \<Rightarrow> chat_message list option \<Rightarrow> ustr option
     \<Rightarrow> py_exn + completion option" where
  "get_completion bedrock prompt chat_history system_prompt =
     (case bedrock (converse_params prompt chat_history system_prompt) of
        Inl err \<Rightarrow> (if is_ClientError err then Inr None else Inl err)
      | Inr response_message \<Rightarrow>
          (case find is_tool_use (message_content response_message) of
             None \<Rightarrow> Inl TypeError
           | Some content_block \<Rightarrow>
               (case content_block of
                  TextBlock t \<Rightarrow> Inl KeyError
                | ToolUseBlock tool_use_block \<Rightarrow>
                    (let tool_result_dict = input tool_use_block
                     in if ustr ''response'' \<in> set (map fst tool_result_dict)
                        then Inr (Some (ToolInput tool_result_dict))
                        else Inr (Some (GenericRequest response_message))))))"

fun truthy :: "completion option \<Rightarrow> bool" where
  "truthy None = False"
| "truthy (Some (ToolInput d)) = (d \<noteq> [])"
| "truthy (Some (GenericRequest m)) = True"

text \<open>\<open>qoonity_head\<close> is the system prompt imported from \<^verbatim>\<open>qooneous\<close>, a parameter here.\<close>

definition get_response ::
  "(converse_api_params \<Rightarrow> py_exn + message) \<Rightarrow> ustr \<Rightarrow> ustr \<Rightarrow> chat_message list option
     \<Rightarrow> completion option" where
  "get_response bedrock qoonity_head prompt chat_history =
     (case get_completion bedrock prompt chat_history (Some qoonity_head) of
        Inl e \<Rightarrow> None
      | Inr response \<Rightarrow> (if truthy response then response else None))"

text \<open>
  The words of the specification: the first content block that contains a tool
  invocation.
\<close>

fun first_tool_use :: "content_block list \<Rightarrow> tool_use option" where
  "first_tool_use [] = None"
| "first_tool_use (TextBlock t # blocks) = first_tool_use blocks"
| "first_tool_use (ToolUseBlock tool_use_block # blocks) = Some tool_use_block"

text \<open>Three replies: a tool use with a response, one without, and plain text.\<close>

definition reply_with_response :: message where
  "reply_with_response =
     \<lparr>message_role = ustr ''assistant'',
      message_content =
        [TextBlock (ustr ''ok''),
         ToolUseBlock \<lparr>toolUseId = ustr ''t1'', tool_name = ustr ''chat'',
                       input = [(ustr ''request_type'', JString (ustr ''chat'')),
                                (ustr ''response'', JString (ustr ''hello''))]\<rparr>,
         ToolUseBlock \<lparr>toolUseId = ustr ''t2'', tool_name = ustr ''code'',
                       input = [(ustr ''response'', JString (ustr ''later''))]\<rparr>]\<rparr>"

definition reply_without_response :: message where
  "reply_without_response =
     \<lparr>message_role = ustr ''assistant'',
      message_content =
        [ToolUseBlock \<lparr>toolUseId = ustr ''t1'', tool_name = ustr ''code'',
                       input = [(ustr ''request_type'', JString (ustr ''code''))]\<rparr>]\<rparr>"

definition reply_text_only :: message where
  "reply_text_only =
     \<lparr>message_role = ustr ''assistant'', message_content = [TextBlock (ustr ''hello'')]\<rparr>"

section \<open>Proofs: path normalisation\<close>

subsection \<open>Splitting and joining\<close>

lemma split_sep_nonempty: "split_sep sep s \<noteq> []"
  by (induction s) (auto split: list.splits)

lemma hd_split_sep: "hd (split_sep sep s) = takeWhile (\<lambda>c. c \<noteq> sep) s"
  using split_sep_nonempty [of sep]
  by (induction s) (auto split: list.splits)

lemma join_split_sep: "join_sep sep (split_sep sep s) = s"
proof (induction s)
  case Nil
  show ?case by simp
next
  case (Cons c cs)
  obtain p ps where ps: "split_sep sep cs = p # ps"
    using split_sep_nonempty [of sep cs] by (cases "split_sep sep cs") auto
  show ?case
  proof (cases "c = sep")
    case True
    with Cons ps show ?thesis by simp
  next
    case False
    with Cons ps show ?thesis by (cases ps) auto
  qed
qed

lemma join_tl_split_sep:
  "join_sep sep (tl (split_sep sep s)) = drop (Suc (length (takeWhile (\<lambda>c. c \<noteq> sep) s))) s"
proof (induction s)
  case Nil
  show ?case by simp
next
  case (Cons c cs)
  obtain p ps where ps: "split_sep sep cs = p # ps"
    using split_sep_nonempty [of sep cs] by (cases "split_sep sep cs") auto
  show ?case
  proof (cases "c = sep")
    case True
    then show ?thesis using join_split_sep [of sep cs] by simp
  next
    case False
    with Cons ps show ?thesis by simp
  qed
qed

text \<open>
  Claim C7. For every path and repository name: when the first slash-separated segment of
  the path equals the repository name, \<open>clean_file_path\<close> returns the path without that
  segment (the remaining segments joined by slashes, which is the text after the first
  slash); otherwise it returns the path unchanged. The two examples of the specification
  are part of the statement.
\<close>

theorem clean_file_path_normalises:
  "clean_file_path path repo_name =
     (if first_segment path = repo_name then without_first_segment path else path)
   \<and> without_first_segment path = join_sep slash (tl (split_sep slash path))
   \<and> clean_file_path (ustr ''myrepo/src/App.kt'') (ustr ''myrepo'') = ustr ''src/App.kt''
   \<and> clean_file_path (ustr ''other/App.kt'') (ustr ''myrepo'') = ustr ''other/App.kt''"
proof -
  have general: "clean_file_path p r =
      (if first_segment p = r then without_first_segment p else p)" for p r
    by (simp add: clean_file_path_def first_segment_def without_first_segment_def
        split_sep_nonempty hd_split_sep join_tl_split_sep)
  have joined: "without_first_segment path = join_sep slash (tl (split_sep slash path))"
    by (simp add: without_first_segment_def first_segment_def join_tl_split_sep)
  have ex1: "clean_file_path (ustr ''myrepo/src/App.kt'') (ustr ''myrepo'') = ustr ''src/App.kt''"
    by (simp add: general first_segment_def without_first_segment_def ustr_def slash_def)
  have ex2: "clean_file_path (ustr ''other/App.kt'') (ustr ''myrepo'') = ustr ''other/App.kt''"
    by (simp add: general first_segment_def without_first_segment_def ustr_def slash_def)
  from general joined ex1 ex2 show ?thesis by blast
qed

theorem clean_file_path_normalises_witness:
  "clean_file_path (ustr ''myrepo/a/b'') (ustr ''myrepo'') = ustr ''a/b''
   \<and> clean_file_path (ustr ''myrepo'') (ustr ''myrepo'') = []
   \<and> clean_file_path (ustr ''myrepository/a'') (ustr ''myrepo'') = ustr ''myrepository/a''"
  using clean_file_path_normalises [of "ustr ''myrepo/a/b''" "ustr ''myrepo''"]
    clean_file_path_normalises [of "ustr ''myrepo''" "ustr ''myrepo''"]
    clean_file_path_normalises [of "ustr ''myrepository/a''" "ustr ''myrepo''"]
  by (simp add: first_segment_def without_first_segment_def ustr_def slash_def)

section \<open>Proofs: content classification\<close>

declare up_shift.simps [simp del] down_shift.simps [simp del]
















section \<open>Proofs: secret redaction\<close>

subsection \<open>The backtracking matcher on the pattern\<close>

lemma sensitive_var_chars: "sensitive_var = [97, 117, 116, 104, 75, 101, 121]"
  by (simp add: sensitive_var_def ustr_def)

lemma ustr_authKey: "ustr ''authKey'' = [97, 117, 116, 104, 75, 101, 121]"
  by (simp add: ustr_def)

lemma ustr_equals: "ustr ''='' = [61]"
  by (simp add: ustr_def)

lemma not_space_equals: "\<not> is_space 61"
  by (simp add: is_space_def)

lemma quote_not_space: "is_quote c \<Longrightarrow> \<not> is_space c"
  by (auto simp: is_quote_def is_space_def)

lemma cls_match_quote_chars: "cls_match quote_chars c = is_quote c"
  by (auto simp: quote_chars_def is_quote_def)

lemma first_result_append:
  "first_result (xs @ ys) = (case first_result xs of None \<Rightarrow> first_result ys | Some x \<Rightarrow> Some x)"
  by (cases xs) simp_all

lemma first_result_map: "first_result (map f xs) = map_option f (first_result xs)"
  by (cases xs) simp_all

lemma concat_greedy_rests:
  assumes "\<And>t. t \<noteq> [] \<Longrightarrow> p (hd t) \<Longrightarrow> F t = []"
  shows "concat (map F (greedy_rests p r)) = F (dropWhile p r)"
proof (induction r)
  case Nil
  show ?case by simp
next
  case (Cons x xs)
  show ?case
  proof (cases "p x")
    case True
    then have "F (x # xs) = []" using assms [of "x # xs"] by simp
    with True Cons show ?thesis by simp
  next
    case False
    then show ?thesis by simp
  qed
qed

lemma first_greedy_rests: "first_result (greedy_rests p s) = Some (dropWhile p s)"
  by (induction s) (simp_all add: first_result_append)

lemma cls_match_NonSpace: "cls_match NonSpace = (\<lambda>c. \<not> is_space c)"
  by (rule ext) simp

lemma cls_match_Dot: "cls_match Dot = (\<lambda>c. c \<noteq> 10)"
  by (rule ext) simp

lemma cls_match_Space: "cls_match Space = is_space"
  by (rule ext) simp

lemma first_lazy_rests:
  assumes nil: "F [] = []"
    and cons: "\<And>x xs. F (x # xs) = (if is_quote x then [G xs] else [])"
  shows "first_result (concat (map F (lazy_rests (\<lambda>c. c \<noteq> 10) cs))) = map_option G (quoted_end cs)"
proof (induction cs)
  case Nil
  show ?case by (simp add: nil)
next
  case (Cons x xs)
  show ?case
  proof (cases "is_quote x")
    case True
    then show ?thesis by (simp add: cons)
  next
    case False
    with Cons show ?thesis by (simp add: cons)
  qed
qed

lemma first_lazy_quote:
  "first_result (concat (map (\<lambda>t. backtrack (Set quote_chars) (g, t)) (lazy_rests (cls_match Dot) cs)))
     = map_option (Pair g) (quoted_end cs)"
  unfolding cls_match_Dot
  by (rule first_lazy_rests) (simp_all add: cls_match_quote_chars)

lemma pattern_parts: "pattern = Seq (Group 1 lhs_regex) (Group 2 value_regex)"
  by (simp add: pattern_def lhs_regex_def value_regex_def)

lemma value_regex_first:
  "first_result (backtrack value_regex (g, t)) = map_option (Pair g) (value_end t)"
proof (cases t)
  case Nil
  then show ?thesis by (simp add: value_regex_def value_end_def)
next
  case (Cons c cs)
  show ?thesis
  proof (cases "is_quote c")
    case True
    then have ns: "\<not> is_space c" by (rule quote_not_space)
    have q: "backtrack (Seq (Set quote_chars) (Seq (LazyStar Dot) (Set quote_chars))) (g, c # cs)
        = concat (map (\<lambda>t. backtrack (Set quote_chars) (g, t)) (lazy_rests (cls_match Dot) cs))"
      using True by (simp add: cls_match_quote_chars comp_def)
    have p: "first_result (backtrack (Plus NonSpace) (g, c # cs)) = Some (g, token_end cs)"
      using ns by (simp add: first_result_map first_greedy_rests token_end_def cls_match_NonSpace)
    have "first_result (backtrack value_regex (g, c # cs)) =
        (case map_option (Pair g) (quoted_end cs) of None \<Rightarrow> Some (g, token_end cs) | Some x \<Rightarrow> Some x)"
      unfolding value_regex_def backtrack.simps(7) first_result_append q first_lazy_quote p ..
    then show ?thesis using True ns
      by (simp add: Cons value_end_def split: option.splits)
  next
    case False
    have q: "backtrack (Seq (Set quote_chars) (Seq (LazyStar Dot) (Set quote_chars))) (g, c # cs) = []"
      using False by (simp add: cls_match_quote_chars)
    show ?thesis
    proof (cases "is_space c")
      case True
      then have p0: "backtrack (Plus NonSpace) (g, c # cs) = []" by simp
      have "backtrack value_regex (g, c # cs) = []"
        unfolding value_regex_def backtrack.simps(7) q p0 by simp
      then show ?thesis using True by (simp add: Cons value_end_def)
    next
      case ns: False
      have p: "first_result (backtrack (Plus NonSpace) (g, c # cs)) = Some (g, token_end cs)"
        using ns by (simp add: first_result_map first_greedy_rests token_end_def cls_match_NonSpace)
      have "first_result (backtrack value_regex (g, c # cs)) = Some (g, token_end cs)"
        unfolding value_regex_def backtrack.simps(7) first_result_append q p by simp
      then show ?thesis using False ns by (simp add: Cons value_end_def)
    qed
  qed
qed

lemma value_regex_space:
  assumes "t \<noteq> []" "is_space (hd t)"
  shows "backtrack value_regex (g, t) = []"
proof -
  obtain c cs where t: "t = c # cs" using assms(1) by (cases t) auto
  have "\<not> is_quote c" using assms(2) quote_not_space [of c] by (auto simp: t)
  then show ?thesis using assms(2) by (simp add: t value_regex_def cls_match_quote_chars)
qed

lemma lhs_regex_results:
  "backtrack lhs_regex (g, s) =
     (if take 7 s = ustr ''authKey'' then
        (case dropWhile is_space (drop 7 s) of
           [] \<Rightarrow> []
         | e # after_eq \<Rightarrow> if e = 61 then map (Pair g) (greedy_rests is_space after_eq) else [])
      else [])"
proof -
  have sp: "cls_match Space = is_space" by (rule ext) simp
  have inner: "backtrack (Seq (Lit (ustr ''='')) (Star Space)) (g, t) =
      (case t of [] \<Rightarrow> [] | e # r \<Rightarrow> if e = 61 then map (Pair g) (greedy_rests is_space r) else [])"
    for t
    by (cases t) (simp_all add: ustr_equals sp)
  have blocked: "backtrack (Seq (Lit (ustr ''='')) (Star Space)) (g, t) = []"
    if "t \<noteq> []" "is_space (hd t)" for t
    using that not_space_equals unfolding inner by (cases t) auto
  have star: "backtrack (Seq (Star Space) (Seq (Lit (ustr ''='')) (Star Space))) (g, r) =
      backtrack (Seq (Lit (ustr ''='')) (Star Space)) (g, dropWhile is_space r)" for r
  proof -
    have "backtrack (Seq (Star Space) (Seq (Lit (ustr ''='')) (Star Space))) (g, r) =
        concat (map (\<lambda>t. backtrack (Seq (Lit (ustr ''='')) (Star Space)) (g, t)) (greedy_rests is_space r))"
      by (subst backtrack.simps(6)) (simp only: backtrack.simps(3) map_map comp_def cls_match_Space)
    also have "\<dots> = backtrack (Seq (Lit (ustr ''='')) (Star Space)) (g, dropWhile is_space r)"
      by (rule concat_greedy_rests) (rule blocked)
    finally show ?thesis .
  qed
  have len: "length sensitive_var = 7" by (simp add: sensitive_var_chars)
  have lit: "backtrack (Lit sensitive_var) (g, s) =
      (if take 7 s = ustr ''authKey'' then [(g, drop 7 s)] else [])"
    by (simp only: backtrack.simps(1) len) (simp add: sensitive_var_def)
  have "backtrack lhs_regex (g, s) =
      concat (map (backtrack (Seq (Star Space) (Seq (Lit (ustr ''='')) (Star Space))))
        (backtrack (Lit sensitive_var) (g, s)))"
    unfolding lhs_regex_def by (subst backtrack.simps(6)) (rule refl)
  then have "backtrack lhs_regex (g, s) =
      (if take 7 s = ustr ''authKey''
       then backtrack (Seq (Star Space) (Seq (Lit (ustr ''='')) (Star Space))) (g, drop 7 s) else [])"
    by (simp add: lit del: backtrack.simps)
  then show ?thesis by (simp only: star inner)
qed


lemma group_results:
  "backtrack (Group n r) (g, s) =
     map (\<lambda>(g', s'). (g'(n \<mapsto> take (length s - length s') s), s')) (backtrack r (g, s))"
  by simp

lemma pattern_results_no_lhs:
  assumes "backtrack lhs_regex (Map.empty, s) = []"
  shows "backtrack pattern (Map.empty, s) = []"
  unfolding pattern_parts backtrack.simps(6) group_results assms by simp

lemma pattern_results_lhs:
  assumes "take 7 s = ustr ''authKey''"
    and "dropWhile is_space (drop 7 s) = 61 # after_eq"
  shows "backtrack pattern (Map.empty, s) =
     backtrack (Group 2 value_regex)
       ((Map.empty :: captures)(1 \<mapsto> take (length s - length (dropWhile is_space after_eq)) s),
        dropWhile is_space after_eq)"
proof -
  define F where "F = (\<lambda>s'. backtrack (Group 2 value_regex)
      ((Map.empty :: captures)(1 \<mapsto> take (length s - length s') s), s'))"
  have lhs: "backtrack lhs_regex (Map.empty, s) = map (Pair Map.empty) (greedy_rests is_space after_eq)"
    by (simp only: lhs_regex_results assms) simp
  have "backtrack pattern (Map.empty, s) =
      concat (map (backtrack (Group 2 value_regex)) (backtrack (Group 1 lhs_regex) (Map.empty, s)))"
    unfolding pattern_parts by (subst backtrack.simps(6)) (rule refl)
  also have "backtrack (Group 1 lhs_regex) (Map.empty, s) =
      map (\<lambda>s'. ((Map.empty :: captures)(1 \<mapsto> take (length s - length s') s), s'))
        (greedy_rests is_space after_eq)"
    unfolding group_results lhs by (simp add: comp_def)
  also have "concat (map (backtrack (Group 2 value_regex))
      (map (\<lambda>s'. ((Map.empty :: captures)(1 \<mapsto> take (length s - length s') s), s'))
        (greedy_rests is_space after_eq))) = concat (map F (greedy_rests is_space after_eq))"
    unfolding F_def map_map comp_def ..
  also have "\<dots> = F (dropWhile is_space after_eq)"
  proof (rule concat_greedy_rests)
    fix t :: ustr
    assume "t \<noteq> []" "is_space (hd t)"
    then have "backtrack value_regex ((Map.empty :: captures)(1 \<mapsto> take (length s - length t) s), t) = []"
      by (rule value_regex_space)
    then show "F t = []" unfolding F_def group_results by simp
  qed
  finally show ?thesis unfolding F_def .
qed

lemma lhs_text:
  assumes "take 7 s = ustr ''authKey''"
    and "dropWhile is_space (drop 7 s) = 61 # after_eq"
  shows "take (length s - length (dropWhile is_space after_eq)) s =
     ustr ''authKey'' @ takeWhile is_space (drop 7 s) @ [61] @ takeWhile is_space after_eq"
proof -
  have "s = take 7 s @ drop 7 s" by simp
  also have "drop 7 s = takeWhile is_space (drop 7 s) @ dropWhile is_space (drop 7 s)" by simp
  also have "dropWhile is_space (drop 7 s) = 61 # after_eq" by (rule assms(2))
  also have "after_eq = takeWhile is_space after_eq @ dropWhile is_space after_eq" by simp
  finally have "s = (ustr ''authKey'' @ takeWhile is_space (drop 7 s) @ [61] @ takeWhile is_space after_eq)
      @ dropWhile is_space after_eq"
    by (simp add: assms(1))
  then obtain pre where s: "s = pre @ dropWhile is_space after_eq"
    and pre: "pre = ustr ''authKey'' @ takeWhile is_space (drop 7 s) @ [61] @ takeWhile is_space after_eq"
    by blast
  have len: "length s - length (dropWhile is_space after_eq) = length pre"
    using arg_cong [OF s, of length] by simp
  have "take (length pre) s = pre" by (subst s) simp
  then show ?thesis by (simp only: len pre)
qed

lemma re_match_none:
  assumes "assignment_at s = None"
  shows "re_match pattern s = None"
proof (cases "take 7 s = ustr ''authKey''")
  case False
  then have "backtrack lhs_regex (Map.empty, s) = []" by (simp only: lhs_regex_results) simp
  then show ?thesis by (simp add: re_match_def pattern_results_no_lhs)
next
  case name: True
  show ?thesis
  proof (cases "dropWhile is_space (drop 7 s)")
    case Nil
    then have "backtrack lhs_regex (Map.empty, s) = []" by (simp only: lhs_regex_results) simp
    then show ?thesis by (simp add: re_match_def pattern_results_no_lhs)
  next
    case (Cons e after_eq)
    show ?thesis
    proof (cases "e = 61")
      case False
      then have "backtrack lhs_regex (Map.empty, s) = []"
        by (simp only: lhs_regex_results Cons) simp
      then show ?thesis by (simp add: re_match_def pattern_results_no_lhs)
    next
      case True
      with Cons have d: "dropWhile is_space (drop 7 s) = 61 # after_eq" by simp
      have "value_end (dropWhile is_space after_eq) = None"
        using assms name d by (simp add: assignment_at_def Let_def split: option.splits)
      then show ?thesis
        unfolding re_match_def pattern_results_lhs [OF name d] group_results
        by (simp add: first_result_map value_regex_first)
    qed
  qed
qed

lemma re_match_some:
  assumes "assignment_at s = Some (lhs, rest)"
  shows "\<exists>g. re_match pattern s = Some (g, rest) \<and> g 1 = Some lhs"
proof -
  from assms have name: "take 7 s = ustr ''authKey''"
    by (simp add: assignment_at_def split: if_splits)
  from assms name obtain after_eq where d: "dropWhile is_space (drop 7 s) = 61 # after_eq"
    by (auto simp: assignment_at_def Let_def split: list.splits if_splits)
  from assms name d have v: "value_end (dropWhile is_space after_eq) = Some rest"
    and l: "lhs = ustr ''authKey'' @ takeWhile is_space (drop 7 s) @ [61] @ takeWhile is_space after_eq"
    by (auto simp: assignment_at_def Let_def split: option.splits)
  have "re_match pattern s = Some
      (((Map.empty :: captures)(1 \<mapsto> take (length s - length (dropWhile is_space after_eq)) s))
         (2 \<mapsto> take (length (dropWhile is_space after_eq) - length rest) (dropWhile is_space after_eq)),
       rest)"
    unfolding re_match_def pattern_results_lhs [OF name d] group_results
    by (simp add: first_result_map value_regex_first v)
  then show ?thesis by (simp add: lhs_text [OF name d] l)
qed

lemma re_sub_pattern:
  "re_sub pattern [GroupRef 1, Literal rep] s = redact rep s"
proof (induction rep s rule: redact.induct)
  case (1 rep)
  have "assignment_at [] = None" by (simp add: assignment_at_def ustr_authKey)
  then have "re_match pattern [] = None" by (rule re_match_none)
  then show ?case by (simp add: re_sub.simps [of _ _ "[]"])
next
  case (2 rep c cs)
  show ?case
  proof (cases "assignment_at (c # cs)")
    case None
    then have "re_match pattern (c # cs) = None" by (rule re_match_none)
    then show ?thesis using 2(1) [OF None] None
      by (simp add: re_sub.simps [of _ _ "c # cs"] redact.simps(2))
  next
    case (Some a)
    obtain lhs rest where a: "a = (lhs, rest)" by (cases a)
    from Some a have m: "assignment_at (c # cs) = Some (lhs, rest)" by simp
    then obtain g where g: "re_match pattern (c # cs) = Some (g, rest)" "g 1 = Some lhs"
      using re_match_some by blast
    have shorter: "length rest < length (c # cs)" using m by (rule assignment_at_shorter)
    have ih: "re_sub pattern [GroupRef 1, Literal rep] rest = redact rep rest"
      using 2(2) [OF Some a [symmetric]] .
    have "re_sub pattern [GroupRef 1, Literal rep] (c # cs) =
        expand g [GroupRef 1, Literal rep] @ re_sub pattern [GroupRef 1, Literal rep] rest"
      using shorter by (subst re_sub.simps) (simp add: g(1))
    also have "\<dots> = lhs @ rep @ redact rep rest"
      by (simp add: expand_def g(2) ih del: One_nat_def)
    finally show ?thesis by (simp add: redact.simps(2) m)
  qed
qed

lemma replacements_nonempty: "replacements ext = Some rep \<Longrightarrow> rep \<noteq> []"
  by (auto simp: replacements_def ustr_def split: if_splits)

lemma clean_code_content_redact:
  "clean_code_content content ext =
     (case replacements ext of None \<Rightarrow> content | Some rep \<Rightarrow> redact rep content)"
proof (cases "replacements ext")
  case None
  then show ?thesis by (simp add: clean_code_content_def)
next
  case (Some rep)
  then show ?thesis using replacements_nonempty [OF Some]
    by (simp add: clean_code_content_def re_sub_pattern del: One_nat_def)
qed


subsection \<open>What a match leaves of the text\<close>

lemma quoted_end_decomp: "quoted_end cs = Some r \<Longrightarrow> \<exists>u. cs = u @ r \<and> u \<noteq> []"
proof (induction cs)
  case Nil
  then show ?case by simp
next
  case (Cons c cs)
  show ?case
  proof (cases "is_quote c")
    case True
    with Cons.prems have "c # cs = [c] @ r" by simp
    then show ?thesis by blast
  next
    case False
    with Cons.prems have "quoted_end cs = Some r" by (simp split: if_splits)
    from Cons.IH [OF this] obtain u where "cs = u @ r" by blast
    then have "c # cs = (c # u) @ r" by simp
    then show ?thesis by blast
  qed
qed

lemma value_end_decomp:
  assumes "value_end t = Some rest"
  shows "\<exists>v. t = v @ rest \<and> v \<noteq> []"
proof -
  from assms obtain c cs where t: "t = c # cs" by (cases t) (simp_all add: value_end_def)
  have ve: "(if is_space c then None
      else if is_quote c then
        (case quoted_end cs of Some r \<Rightarrow> Some r | None \<Rightarrow> Some (token_end cs))
      else Some (token_end cs)) = Some rest"
    using assms unfolding t value_end_def by simp
  have token: "\<exists>v. t = v @ rest \<and> v \<noteq> []" if "rest = token_end cs"
  proof -
    have "t = (c # takeWhile (\<lambda>x. \<not> is_space x) cs) @ rest"
      by (simp add: t that token_end_def)
    then show ?thesis by (intro exI [of _ "c # takeWhile (\<lambda>x. \<not> is_space x) cs"]) simp
  qed
  show ?thesis
  proof (cases "quoted_end cs")
    case None
    with ve have "rest = token_end cs" by (simp split: if_splits)
    then show ?thesis by (rule token)
  next
    case (Some r)
    with ve have "rest = r \<or> rest = token_end cs" by (simp split: if_splits)
    then show ?thesis
    proof
      assume "rest = r"
      with Some have "quoted_end cs = Some rest" by simp
      from quoted_end_decomp [OF this] obtain u where "cs = u @ rest" by blast
      then have "t = (c # u) @ rest" by (simp add: t)
      then show ?thesis by (intro exI [of _ "c # u"]) simp
    next
      assume "rest = token_end cs"
      then show ?thesis by (rule token)
    qed
  qed
qed

lemma assignment_at_parts:
  assumes "assignment_at s = Some (lhs, rest)"
  shows "\<exists>ws1 ws2 v. lhs = ustr ''authKey'' @ ws1 @ [61] @ ws2
     \<and> (\<forall>c \<in> set ws1. is_space c) \<and> (\<forall>c \<in> set ws2. is_space c)
     \<and> v \<noteq> [] \<and> \<not> is_space (hd v) \<and> s = lhs @ v @ rest"
proof -
  from assms have name: "take 7 s = ustr ''authKey''"
    by (simp add: assignment_at_def split: if_splits)
  from assms name obtain after_eq where d: "dropWhile is_space (drop 7 s) = 61 # after_eq"
    by (auto simp: assignment_at_def Let_def split: list.splits if_splits)
  define ws1 where "ws1 = takeWhile is_space (drop 7 s)"
  define ws2 where "ws2 = takeWhile is_space after_eq"
  define r4 where "r4 = dropWhile is_space after_eq"
  from assms name d have v: "value_end r4 = Some rest"
    and l: "lhs = ustr ''authKey'' @ ws1 @ [61] @ ws2"
    by (auto simp: assignment_at_def Let_def ws1_def ws2_def r4_def split: option.splits)
  from value_end_decomp [OF v] obtain v' where v': "r4 = v' @ rest" "v' \<noteq> []" by blast
  have "\<not> is_space (hd r4)" using v by (cases r4) (auto simp: value_end_def split: if_splits)
  then have hd: "\<not> is_space (hd v')" using v' by simp
  have "s = take 7 s @ drop 7 s" by simp
  also have "drop 7 s = ws1 @ dropWhile is_space (drop 7 s)" by (simp add: ws1_def)
  also have "dropWhile is_space (drop 7 s) = 61 # after_eq" by (rule d)
  also have "after_eq = ws2 @ r4" by (simp add: ws2_def r4_def)
  finally have "s = lhs @ v' @ rest" by (simp add: name l v')
  moreover have "\<forall>c \<in> set ws1. is_space c" "\<forall>c \<in> set ws2. is_space c"
    by (auto simp: ws1_def ws2_def dest: set_takeWhileD)
  ultimately show ?thesis using l v'(2) hd by blast
qed



subsection \<open>A longer identifier that ends in the name\<close>

lemma dropWhile_head_other:
  assumes "x \<notin> set q" "\<not> P a" "a \<noteq> x"
  shows "dropWhile P (q @ a # r) \<noteq> x # t"
  using assms(1)
proof (induction q)
  case Nil
  show ?case using assms(2,3) by simp
next
  case (Cons y q)
  then show ?case by (cases "P y") auto
qed

lemma no_assignment_in_prefix:
  assumes "61 \<notin> set p" "p \<noteq> []" "take 7 s = ustr ''authKey''"
  shows "assignment_at (p @ s) = None"
proof (rule ccontr)
  assume "assignment_at (p @ s) \<noteq> None"
  then have name: "take 7 (p @ s) = ustr ''authKey''"
    and eq: "\<exists>after_eq. dropWhile is_space (drop 7 (p @ s)) = 61 # after_eq"
    by (auto simp: assignment_at_def Let_def split: if_splits list.splits)
  from assms(3) obtain s' where s: "s = 97 # s'" by (cases s) (auto simp: ustr_authKey)
  show False
  proof (cases "7 \<le> length p")
    case True
    then have "drop 7 (p @ s) = drop 7 p @ 97 # s'" by (simp add: s)
    moreover have "61 \<notin> set (drop 7 p)" using assms(1) by (auto dest: in_set_dropD)
    moreover have "\<not> is_space 97" by (simp add: is_space_def)
    ultimately show False using eq dropWhile_head_other [of 61 "drop 7 p" is_space 97 s'] by force
  next
    case False
    then have short: "length p < 7" by simp
    have "(take 7 (p @ s)) ! length p = 97" using short by (simp add: s nth_append)
    then have at: "ustr ''authKey'' ! length p = 97" by (simp only: name)
    have "0 < length p" using assms(2) by simp
    with short have "length p = 1 \<or> length p = 2 \<or> length p = 3 \<or> length p = 4
        \<or> length p = 5 \<or> length p = 6" by linarith
    then show False using at unfolding ustr_authKey by (elim disjE) simp_all
  qed
qed

lemma redact_after_prefix:
  assumes "61 \<notin> set p" "take 7 s = ustr ''authKey''"
  shows "redact rep (p @ s) = p @ redact rep s"
  using assms(1)
proof (induction p)
  case Nil
  show ?case by simp
next
  case (Cons x p)
  then have "assignment_at ((x # p) @ s) = None"
    by (intro no_assignment_in_prefix assms(2)) simp_all
  with Cons show ?case by (simp add: redact.simps(2))
qed


subsection \<open>A second pass\<close>

lemma redact_match:
  assumes "assignment_at s = Some (lhs, rest)"
  shows "redact rep s = lhs @ rep @ redact rep rest"
proof -
  from assms obtain c cs where "s = c # cs"
    by (cases s) (simp_all add: assignment_at_def ustr_authKey)
  with assms show ?thesis by (simp add: redact.simps(2))
qed











lemma dom_replacements:
  "dom replacements = {ustr ''.kt'', ustr ''.java'', ustr ''.py'', ustr ''.js'', ustr ''.ts''}"
  by (auto simp: replacements_def dom_def split: if_splits)

lemmas redact_eval = redact.simps(2) assignment_at_def value_end_def token_end_def is_space_def
  is_quote_def ustr_def Let_def

text \<open>
  Claim C5. For every text and file-type hint, \<open>clean_code_content\<close> (the regular
  expression substitution of the source) is the redaction the specification describes:
  for a hint outside the fixed set \<open>.kt\<close>, \<open>.java\<close>, \<open>.py\<close>, \<open>.js\<close>, \<open>.ts\<close> the text is
  returned unchanged, and for a hint in the set every assignment met from left to right
  keeps its left-hand side, has its value (a non-empty piece of the text) replaced by the
  hint's expression, and everything else is copied. The example of the specification,
  \<open>authKey = "abc123"\<close> in a \<open>.py\<close> file, is part of the statement.
\<close>

theorem clean_code_content_redacts:
  "clean_code_content content ext =
     (case replacements ext of None \<Rightarrow> content | Some rep \<Rightarrow> redact rep content)
   \<and> dom replacements = {ustr ''.kt'', ustr ''.java'', ustr ''.py'', ustr ''.js'', ustr ''.ts''}
   \<and> (assignment_at s = Some (lhs, rest) \<longrightarrow>
        (\<exists>v. v \<noteq> [] \<and> s = lhs @ v @ rest \<and> redact rep s = lhs @ rep @ redact rep rest))
   \<and> (assignment_at (c # cs) = None \<longrightarrow> redact rep (c # cs) = c # redact rep cs)
   \<and> redact rep [] = []
   \<and> clean_code_content (ustr ''authKey = \"abc123\"'') (ustr ''.py'')
       = ustr ''authKey = os.getenv(\"REPLACEMENT_KEY\")''"
proof -
  have match: "\<exists>v. v \<noteq> [] \<and> s = lhs @ v @ rest \<and> redact rep s = lhs @ rep @ redact rep rest"
    if m: "assignment_at s = Some (lhs, rest)"
  proof -
    from assignment_at_parts [OF m] obtain v where "v \<noteq> []" "s = lhs @ v @ rest" by blast
    with redact_match [OF m, of rep] show ?thesis by blast
  qed
  have skip: "redact rep (c # cs) = c # redact rep cs" if "assignment_at (c # cs) = None"
    using that by (simp add: redact.simps(2))
  have ex: "clean_code_content (ustr ''authKey = \"abc123\"'') (ustr ''.py'')
      = ustr ''authKey = os.getenv(\"REPLACEMENT_KEY\")''"
    unfolding clean_code_content_redact by (simp add: replacements_def redact_eval)
  from clean_code_content_redact [of content ext] dom_replacements match skip ex
  show ?thesis by simp
qed

text \<open>
  The theorem of C5 at concrete inputs: two assignments in one text are both replaced,
  and a hint outside the set leaves the text as it is.
\<close>

theorem clean_code_content_redacts_witness:
  "clean_code_content (ustr ''authKey=\"a\" x authKey = b'') (ustr ''.kt'')
     = ustr ''authKey=System.getenv(\"REPLACEMENT_KEY\") x authKey = System.getenv(\"REPLACEMENT_KEY\")''
   \<and> clean_code_content (ustr ''authKey = 1'') (ustr ''.txt'') = ustr ''authKey = 1''
   \<and> redact (ustr ''K'') (ustr ''authKey = 1;'') = ustr ''authKey = K''
   \<and> redact (ustr ''K'') (ustr ''xauthKey'') = ustr ''xauthKey''"
proof -
  have a: "clean_code_content (ustr ''authKey=\"a\" x authKey = b'') (ustr ''.kt'')
      = ustr ''authKey=System.getenv(\"REPLACEMENT_KEY\") x authKey = System.getenv(\"REPLACEMENT_KEY\")''"
    using clean_code_content_redacts [of "ustr ''authKey=\"a\" x authKey = b''" "ustr ''.kt''"]
    by (simp add: replacements_def redact_eval)
  have b: "clean_code_content (ustr ''authKey = 1'') (ustr ''.txt'') = ustr ''authKey = 1''"
    using clean_code_content_redacts [of "ustr ''authKey = 1''" "ustr ''.txt''"]
    by (simp add: replacements_def ustr_def)
  have m: "assignment_at (ustr ''authKey = 1;'') = Some (ustr ''authKey = '', [])"
    by (simp add: redact_eval)
  have c: "redact (ustr ''K'') (ustr ''authKey = 1;'') = ustr ''authKey = K''"
    using clean_code_content_redacts [of _ _ "ustr ''authKey = 1;''" "ustr ''authKey = ''" "[]"
        "ustr ''K''"] m
    by (simp add: ustr_def)
  have n: "assignment_at (of_char CHR ''x'' # ustr ''authKey'') = None"
    by (simp add: redact_eval)
  have d: "redact (ustr ''K'') (ustr ''xauthKey'') = ustr ''xauthKey''"
    using clean_code_content_redacts [of _ _ _ _ _ "ustr ''K''" "of_char CHR ''x''" "ustr ''authKey''"] n
    by (simp add: redact_eval)
  from a b c d show ?thesis by blast
qed




text \<open>
  Claim C10. The pattern is not anchored at a word boundary: whatever stands before the
  name \<open>authKey\<close> (any text without \<open>=\<close>, such as the start of a longer identifier), an
  assignment that follows is matched and its value replaced. The example
  \<open>myauthKey = "secret"\<close> is part of the statement.
\<close>

theorem redaction_not_anchored:
  "(61 \<notin> set p \<and> replacements ext = Some rep \<and> assignment_at s = Some (lhs, rest) \<longrightarrow>
      clean_code_content (p @ s) ext = p @ lhs @ rep @ clean_code_content rest ext)
   \<and> clean_code_content (ustr ''myauthKey = \"secret\"'') (ustr ''.py'')
       = ustr ''myauthKey = os.getenv(\"REPLACEMENT_KEY\")''"
proof -
  have general: "clean_code_content (p @ s) ext = p @ lhs @ rep @ clean_code_content rest ext"
    if p: "61 \<notin> set p" and r: "replacements ext = Some rep"
      and m: "assignment_at s = Some (lhs, rest)"
  proof -
    from m have name: "take 7 s = ustr ''authKey''"
      by (simp add: assignment_at_def split: if_splits)
    have "redact rep (p @ s) = p @ redact rep s" using p name by (rule redact_after_prefix)
    also have "redact rep s = lhs @ rep @ redact rep rest" using m by (rule redact_match)
    finally show ?thesis by (simp add: clean_code_content_redact r)
  qed
  have ex: "clean_code_content (ustr ''myauthKey = \"secret\"'') (ustr ''.py'')
      = ustr ''myauthKey = os.getenv(\"REPLACEMENT_KEY\")''"
    unfolding clean_code_content_redact by (simp add: replacements_def redact_eval)
  from general ex show ?thesis by blast
qed

text \<open>
  The theorem of C10 at a concrete input, the identifier \<open>oldauthKey\<close>.
\<close>

theorem redaction_not_anchored_witness:
  "clean_code_content (ustr ''oldauthKey=tok rest'') (ustr ''.ts'')
     = ustr ''oldauthKey=process.env.REPLACEMENT_KEY rest''"
proof -
  have p: "61 \<notin> set (ustr ''old'')" by (simp add: ustr_def)
  have r: "replacements (ustr ''.ts'') = Some (ustr ''process.env.REPLACEMENT_KEY'')"
    by (simp add: replacements_def ustr_def)
  have m: "assignment_at (ustr ''authKey=tok rest'') = Some (ustr ''authKey='', ustr '' rest'')"
    by (simp add: redact_eval)
  have tail: "clean_code_content (ustr '' rest'') (ustr ''.ts'') = ustr '' rest''"
    unfolding clean_code_content_redact by (simp add: replacements_def redact_eval)
  have "clean_code_content (ustr ''old'' @ ustr ''authKey=tok rest'') (ustr ''.ts'')
      = ustr ''old'' @ ustr ''authKey='' @ ustr ''process.env.REPLACEMENT_KEY''
        @ clean_code_content (ustr '' rest'') (ustr ''.ts'')"
    using redaction_not_anchored [of "ustr ''old''" "ustr ''.ts''" "ustr ''process.env.REPLACEMENT_KEY''"
        "ustr ''authKey=tok rest''" "ustr ''authKey=''" "ustr '' rest''"] p r m
    by blast
  then show ?thesis by (simp add: tail) (simp add: ustr_def)
qed

section \<open>Proofs: the push pipeline\<close>

lemma ui_None: "ui None call tr = tr"
  by (simp add: ui_def)

lemma ui_Some: "ui (Some w) call tr = tr @ [Ui call]"
  by (simp add: ui_def)

lemma filter_ui:
  "filter is_put (ui w call tr) = filter is_put tr"
  "filter is_post (ui w call tr) = filter is_post tr"
  by (simp_all add: ui_def)

lemma create_repository_events:
  "create_repository api n p tr = (fst (create_repository api n p []), tr @ [Post n p])"
  by (simp add: create_repository_def Let_def split: sum.splits)

lemma loop_body_skipped:
  assumes "\<not> attempted repo_name f"
  shows "\<exists>st'. loop_body l api owner repo_name msg c f st = Inr st'
     \<and> total_files st' = total_files st \<and> success_count st' = success_count st
     \<and> error_count st' = error_count st \<and> events st' = events st
     \<and> status_placeholder st' = status_placeholder st"
  using assms by (auto simp: loop_body_def attempted_def Let_def)

lemma loop_body_attempted:
  assumes "attempted repo_name f" "c = None \<or> 0 < total_files st"
  shows "\<exists>st'. loop_body l api owner repo_name msg c f st = Inr st'
     \<and> total_files st' = total_files st
     \<and> success_count st' + error_count st' = Suc (success_count st + error_count st)"
proof (cases c)
  case None
  with assms(1) show ?thesis
    by (cases "status_placeholder st") 
       (auto simp: loop_body_def attempted_def Let_def ui_None split: prod.splits sum.splits)
next
  case (Some w)
  with assms have pos: "0 < total_files st" by simp
  obtain r tr where p: "process_file l api owner repo_name f msg (Some Placeholder)
      (ui c (UiProgress (Suc (current_file st)) (total_files st)) (events st)
         @ [Ui (UiRow (clean_file_path (filename f) repo_name))]) = (r, tr)"
    by (cases "process_file l api owner repo_name f msg (Some Placeholder)
      (ui c (UiProgress (Suc (current_file st)) (total_files st)) (events st)
         @ [Ui (UiRow (clean_file_path (filename f) repo_name))])") 
  show ?thesis
  proof (cases r)
    case (Inl e)
    with Some assms(1) pos p show ?thesis
      by (simp add: loop_body_def attempted_def Let_def)
  next
    case (Inr b)
    with Some assms(1) pos p show ?thesis
      by (cases b) (simp_all add: loop_body_def attempted_def Let_def)
  qed
qed

lemma for_loop_completes:
  assumes "c = None \<or> 0 < total_files st \<or> (\<forall>f \<in> set infos. \<not> attempted repo_name f)"
  shows "\<exists>st'. for_loop l api owner repo_name msg c infos st = Inr st'
     \<and> total_files st' = total_files st
     \<and> success_count st' + error_count st' =
         success_count st + error_count st + length (filter (attempted repo_name) infos)"
  using assms
proof (induction infos arbitrary: st)
  case Nil
  show ?case by simp
next
  case (Cons f infos)
  show ?case
  proof (cases "attempted repo_name f")
    case True
    with Cons.prems have ok: "c = None \<or> 0 < total_files st" by auto
    from loop_body_attempted [OF True ok, of l api owner msg] obtain st1 where
      s1: "loop_body l api owner repo_name msg c f st = Inr st1"
        "total_files st1 = total_files st"
        "success_count st1 + error_count st1 = Suc (success_count st + error_count st)"
      by blast
    have "c = None \<or> 0 < total_files st1 \<or> (\<forall>f \<in> set infos. \<not> attempted repo_name f)"
      using ok s1(2) by auto
    from Cons.IH [OF this] obtain st' where
      "for_loop l api owner repo_name msg c infos st1 = Inr st'"
      "total_files st' = total_files st1"
      "success_count st' + error_count st' =
         success_count st1 + error_count st1 + length (filter (attempted repo_name) infos)"
      by blast
    with s1 True show ?thesis by simp
  next
    case False
    from loop_body_skipped [OF False, of l api owner msg c st] obtain st1 where
      s1: "loop_body l api owner repo_name msg c f st = Inr st1"
        "total_files st1 = total_files st" "success_count st1 = success_count st"
        "error_count st1 = error_count st"
      by blast
    have "c = None \<or> 0 < total_files st1 \<or> (\<forall>f \<in> set infos. \<not> attempted repo_name f)"
      using Cons.prems s1(2) by auto
    from Cons.IH [OF this] obtain st' where
      "for_loop l api owner repo_name msg c infos st1 = Inr st'"
      "total_files st' = total_files st1"
      "success_count st' + error_count st' =
         success_count st1 + error_count st1 + length (filter (attempted repo_name) infos)"
      by blast
    with s1 False show ?thesis by simp
  qed
qed

lemma counted_files:
  assumes "length (filter (\<lambda>f. \<not> is_dir f) infos) = 0"
  shows "\<forall>f \<in> set infos. \<not> attempted repo_name f"
proof -
  from assms have "filter (\<lambda>f. \<not> is_dir f) infos = []" by simp
  then show ?thesis by (auto simp: attempted_def filter_empty_conv)
qed

lemma push_completes:
  assumes z: "zipfile_open l zip_content = Inr infos"
    and r: "fst (create_repository api repo_name False []) = Inr (Some url)" "url \<noteq> []"
  shows "\<exists>st. push_zip_to_repo l api owner repo_name zip_content msg c = (Inr True, st)
     \<and> success_count st + error_count st = length (filter (attempted repo_name) infos)"
proof -
  define tr2 where "tr2 = ui c (UiCreatingRepository repo_name) (ui c UiHeader []) @ [Post repo_name False]"
  define st3 where "st3 = \<lparr>total_files = length (filter (\<lambda>f. \<not> is_dir f) infos),
      success_count = 0, error_count = 0, current_file = 0, status_placeholder = None,
      events = ui c UiProgressBar tr2\<rparr>"
  have cr: "create_repository api repo_name False
      (ui c (UiCreatingRepository repo_name) (ui c UiHeader [])) = (Inr (Some url), tr2)"
    by (subst create_repository_events) (simp add: r tr2_def)
  have "c = None \<or> 0 < total_files st3 \<or> (\<forall>f \<in> set infos. \<not> attempted repo_name f)"
    using counted_files [of infos repo_name] by (cases "total_files st3 = 0") (auto simp: st3_def)
  from for_loop_completes [OF this, of l api owner msg] obtain st4 where
    loop: "for_loop l api owner repo_name msg c infos st3 = Inr st4"
    and sum: "success_count st4 + error_count st4 = length (filter (attempted repo_name) infos)"
    by (auto simp: st3_def)
  have "push_zip_to_repo l api owner repo_name zip_content msg c =
      (Inr True, st4\<lparr>events := ui c (UiPushCompleted (success_count st4) (error_count st4))
         (ui c UiProgressDone (events st4))\<rparr>)"
    using loop by (simp add: push_zip_to_repo_def z cr r(2) Let_def st3_def)
  with sum show ?thesis by simp
qed


lemma loop_body_raises:
  assumes a: "attempted repo_name f" and t: "c = None \<or> 0 < total_files st"
    and r: "processing_raises l api owner repo_name msg c f st"
  shows "\<exists>st'. loop_body l api owner repo_name msg c f st = Inr st'
     \<and> error_count st' = error_count st + 1 \<and> success_count st' = success_count st"
proof (cases c)
  case None
  show ?thesis
  proof (cases "status_placeholder st")
    case n: None
    with None a show ?thesis
      by (simp add: loop_body_def attempted_def Let_def ui_None)
  next
    case (Some p)
    with None r obtain e tr where
      "process_file l api owner repo_name f msg (Some p) (events st) = (Inl e, tr)"
      by (cases "process_file l api owner repo_name f msg (Some p) (events st)")
         (auto simp: processing_raises_def placeholder_at_call_def events_at_call_def isl_def)
    with None Some a show ?thesis
      by (simp add: loop_body_def attempted_def Let_def ui_None)
  qed
next
  case (Some w)
  with t have pos: "0 < total_files st" by simp
  from Some r obtain e tr where
    "process_file l api owner repo_name f msg (Some Placeholder)
       (events st @ [Ui (UiProgress (current_file st + 1) (total_files st)),
                     Ui (UiRow (clean_file_path (filename f) repo_name))]) = (Inl e, tr)"
    by (cases "process_file l api owner repo_name f msg (Some Placeholder)
       (events st @ [Ui (UiProgress (current_file st + 1) (total_files st)),
                     Ui (UiRow (clean_file_path (filename f) repo_name))])")
       (auto simp: processing_raises_def placeholder_at_call_def events_at_call_def isl_def)
  with Some a pos show ?thesis
    by (simp add: loop_body_def attempted_def Let_def ui_Some)
qed

lemma loop_body_unbound:
  assumes "attempted repo_name f" "status_placeholder st = None"
  shows "loop_body l api owner repo_name msg None f st =
     Inr (st\<lparr>current_file := current_file st + 1, error_count := error_count st + 1\<rparr>)"
  using assms by (simp add: loop_body_def attempted_def Let_def ui_None)

lemma for_loop_unbound:
  assumes "status_placeholder st = None"
  shows "for_loop l api owner repo_name msg None infos st =
     Inr (st\<lparr>current_file := current_file st + length (filter (\<lambda>f. \<not> is_dir f) infos),
             error_count := error_count st + length (filter (attempted repo_name) infos)\<rparr>)"
  using assms
proof (induction infos arbitrary: st)
  case Nil
  show ?case by simp
next
  case (Cons f infos)
  show ?case
  proof (cases "attempted repo_name f")
    case True
    then have nd: "\<not> is_dir f" by (simp add: attempted_def)
    have p: "status_placeholder
        (st\<lparr>current_file := current_file st + 1, error_count := error_count st + 1\<rparr>) = None"
      using Cons.prems by simp
    have "for_loop l api owner repo_name msg None (f # infos) st =
        for_loop l api owner repo_name msg None infos
          (st\<lparr>current_file := current_file st + 1, error_count := error_count st + 1\<rparr>)"
      by (simp only: for_loop.simps loop_body_unbound [OF True Cons.prems] sum.case)
    also note Cons.IH [OF p]
    finally show ?thesis using True nd by simp
  next
    case False
    show ?thesis
    proof (cases "is_dir f")
      case d: True
      then have "loop_body l api owner repo_name msg None f st = Inr st"
        by (simp add: loop_body_def)
      then show ?thesis using False d by (simp add: Cons.IH [OF Cons.prems])
    next
      case nd: False
      with False have "loop_body l api owner repo_name msg None f st =
          Inr (st\<lparr>current_file := current_file st + 1\<rparr>)"
        by (simp add: loop_body_def attempted_def Let_def)
      moreover have "status_placeholder (st\<lparr>current_file := current_file st + 1\<rparr>) = None"
        using Cons.prems by simp
      ultimately have "for_loop l api owner repo_name msg None (f # infos) st =
          Inr (st\<lparr>current_file := current_file st + 1\<rparr>
                 \<lparr>current_file := current_file (st\<lparr>current_file := current_file st + 1\<rparr>)
                    + length (filter (\<lambda>f. \<not> is_dir f) infos),
                  error_count := error_count (st\<lparr>current_file := current_file st + 1\<rparr>)
                    + length (filter (attempted repo_name) infos)\<rparr>)"
        by (simp only: for_loop.simps sum.case Cons.IH)
      then show ?thesis using False nd by simp
    qed
  qed
qed

lemma push_unbound:
  assumes z: "zipfile_open l zip_content = Inr infos"
    and r: "fst (create_repository api repo_name False []) = Inr (Some url)" "url \<noteq> []"
  shows "push_zip_to_repo l api owner repo_name zip_content msg None =
     (Inr True,
      \<lparr>total_files = length (filter (\<lambda>f. \<not> is_dir f) infos), success_count = 0,
       error_count = length (filter (attempted repo_name) infos),
       current_file = length (filter (\<lambda>f. \<not> is_dir f) infos),
       status_placeholder = None, events = [Post repo_name False]\<rparr>)"
proof -
  have cr: "create_repository api repo_name False [] = (Inr (Some url), [Post repo_name False])"
    by (subst create_repository_events) (simp add: r)
  show ?thesis
    by (simp add: push_zip_to_repo_def z cr r(2) Let_def ui_None for_loop_unbound)
qed

lemma push_not_created:
  assumes z: "zipfile_open l zip_content = Inr infos"
    and r: "fst (create_repository api repo_name False []) = Inr None"
  shows "push_zip_to_repo l api owner repo_name zip_content msg c =
     (Inr False,
      \<lparr>total_files = length (filter (\<lambda>f. \<not> is_dir f) infos), success_count = 0,
       error_count = 0, current_file = 0, status_placeholder = None,
       events = ui c UiRepositoryFailed
         (ui c (UiCreatingRepository repo_name) (ui c UiHeader []) @ [Post repo_name False])\<rparr>)"
proof -
  have cr: "create_repository api repo_name False
      (ui c (UiCreatingRepository repo_name) (ui c UiHeader [])) =
      (Inr None, ui c (UiCreatingRepository repo_name) (ui c UiHeader []) @ [Post repo_name False])"
    by (subst create_repository_events) (simp add: r)
  show ?thesis
    by (simp add: push_zip_to_repo_def z cr Let_def)
qed

lemma push_bad_zip:
  assumes "zipfile_open l zip_content = Inl e"
  shows "push_zip_to_repo l api owner repo_name zip_content msg c =
     (Inl e, \<lparr>total_files = 0, success_count = 0, error_count = 0, current_file = 0,
              status_placeholder = None, events = ui c UiHeader []\<rparr>)"
  by (simp add: push_zip_to_repo_def assms Let_def)

lemma create_repository_fails:
  "post_repos api repo_name private = Inl e \<Longrightarrow> is_RequestException e \<Longrightarrow>
     fst (create_repository api repo_name private tr) = Inr None"
  "post_repos api repo_name private = Inr response \<Longrightarrow> raise_for_status response \<Longrightarrow>
     fst (create_repository api repo_name private tr) = Inr None"
  by (simp_all add: create_repository_def Let_def)

subsection \<open>The example world\<close>

lemma clean_file_path_first_segment:
  "clean_file_path p r = (if first_segment p = r then without_first_segment p else p)"
  by (simp add: clean_file_path_def first_segment_def without_first_segment_def
      split_sep_nonempty hd_split_sep join_tl_split_sep)

lemma example_paths:
  "clean_file_path (ustr ''repo/a.bin'') (ustr ''repo'') = ustr ''a.bin''"
  "clean_file_path (ustr ''repo/b.bin'') (ustr ''repo'') = ustr ''b.bin''"
  by (simp_all add: clean_file_path_first_segment first_segment_def without_first_segment_def
      ustr_def slash_def)

lemma example_attempted:
  "filter (attempted (ustr ''repo'')) example_infos = tl example_infos"
  "filter (\<lambda>f. \<not> is_dir f) example_infos = tl example_infos"
  by (simp_all add: example_infos_def attempted_def example_paths) (simp_all add: ustr_def)

lemma example_open:
  "zipfile_open example_lib [80, 75] = Inr example_infos"
  "zipfile_open example_lib [1, 2, 3] = Inl BadZipFile"
  by (simp_all add: example_lib_def)

lemma example_created:
  "fst (create_repository (example_api True) (ustr ''repo'') False [])
     = Inr (Some (ustr ''https://github.com/o/repo''))"
  "fst (create_repository (example_api False) (ustr ''repo'') False []) = Inr None"
  by (simp_all add: create_repository_def example_api_def Let_def raise_for_status_def)

lemma filter_tally_ui:
  "filter is_tally (ui w UiHeader tr) = filter is_tally tr"
  "filter is_tally (ui w (UiCreatingRepository n) tr) = filter is_tally tr"
  "filter is_tally (ui w UiRepositoryFailed tr) = filter is_tally tr"
  by (simp_all add: ui_def)

lemma find_tool_use:
  "find is_tool_use blocks = map_option ToolUseBlock (first_tool_use blocks)"
  by (induction blocks rule: first_tool_use.induct) simp_all

lemma for_loop_append:
  "for_loop l api owner repo_name msg c (xs @ ys) st =
     (case for_loop l api owner repo_name msg c xs st of
        Inl raised \<Rightarrow> Inl raised
      | Inr st' \<Rightarrow> for_loop l api owner repo_name msg c ys st')"
  by (induction xs arbitrary: st) (simp_all split: sum.splits)

lemma loop_body_uploads:
  assumes a: "attempted repo_name g" and t: "c = None \<or> 0 < total_files st"
    and p: "placeholder_at_call c st = Some p"
    and r: "process_file l api owner repo_name g msg (Some p) (events_at_call c repo_name g st)
        = (Inr True, tr)"
  shows "loop_body l api owner repo_name msg c g st =
     Inr (st\<lparr>current_file := current_file st + 1, status_placeholder := Some p,
             success_count := success_count st + 1, events := ui c UiUploaded tr\<rparr>)"
proof (cases c)
  case None
  with p have sp: "status_placeholder st = Some p" by (simp add: placeholder_at_call_def)
  from None r have "process_file l api owner repo_name g msg (Some p) (events st) = (Inr True, tr)"
    by (simp add: events_at_call_def)
  with None a sp show ?thesis
    by (cases st) (simp add: loop_body_def attempted_def Let_def ui_None)
next
  case (Some w)
  with t have pos: "0 < total_files st" by simp
  from Some p have pp: "p = Placeholder" by (simp add: placeholder_at_call_def)
  from Some r pp have "process_file l api owner repo_name g msg (Some Placeholder)
       (events st @ [Ui (UiProgress (current_file st + 1) (total_files st)),
                     Ui (UiRow (clean_file_path (filename g) repo_name))]) = (Inr True, tr)"
    by (simp add: events_at_call_def)
  with Some a pos pp show ?thesis
    by (cases st) (simp add: loop_body_def attempted_def Let_def ui_Some)
qed

lemma push_runs_loop:
  assumes z: "zipfile_open l zip_content = Inr infos"
    and r: "fst (create_repository api repo_name False []) = Inr (Some url)" "url \<noteq> []"
  shows "\<exists>st4. for_loop l api owner repo_name msg c infos (state_before_loop c repo_name infos)
        = Inr st4
     \<and> push_zip_to_repo l api owner repo_name zip_content msg c =
        (Inr True, st4\<lparr>events := ui c (UiPushCompleted (success_count st4) (error_count st4))
           (ui c UiProgressDone (events st4))\<rparr>)
     \<and> success_count st4 + error_count st4 = length (filter (attempted repo_name) infos)"
proof -
  define tr2 where "tr2 = ui c (UiCreatingRepository repo_name) (ui c UiHeader []) @ [Post repo_name False]"
  have cr: "create_repository api repo_name False
      (ui c (UiCreatingRepository repo_name) (ui c UiHeader [])) = (Inr (Some url), tr2)"
    by (subst create_repository_events) (simp add: r tr2_def)
  have "c = None \<or> 0 < total_files (state_before_loop c repo_name infos)
      \<or> (\<forall>f \<in> set infos. \<not> attempted repo_name f)"
    using counted_files [of infos repo_name]
    by (cases "total_files (state_before_loop c repo_name infos) = 0")
       (auto simp: state_before_loop_def)
  from for_loop_completes [OF this, of l api owner msg] obtain st4 where
    loop: "for_loop l api owner repo_name msg c infos (state_before_loop c repo_name infos) = Inr st4"
    and sum: "success_count st4 + error_count st4 = length (filter (attempted repo_name) infos)"
    by (auto simp: state_before_loop_def)
  have "push_zip_to_repo l api owner repo_name zip_content msg c =
      (Inr True, st4\<lparr>events := ui c (UiPushCompleted (success_count st4) (error_count st4))
         (ui c UiProgressDone (events st4))\<rparr>)"
    using loop by (simp add: push_zip_to_repo_def z cr r(2) Let_def state_before_loop_def tr2_def)
  with loop sum show ?thesis by blast
qed

lemma example_entries_attempted:
  "attempted (ustr ''repo'') unreadable_entry" "attempted (ustr ''repo'') readable_entry"
  by (simp_all add: attempted_def unreadable_entry_def readable_entry_def example_paths)
     (simp_all add: ustr_def)

lemma unreadable_entry_raises:
  "process_file l api owner repo_name unreadable_entry msg sp tr = (Inl RuntimeError, tr)"
  by (simp add: process_file_def unreadable_entry_def Let_def)

lemma readable_entry_uploads:
  "process_file failure_first_lib (example_api True) owner (ustr ''repo'') readable_entry msg
     (Some p) tr =
     (Inr True,
      tr @ [Ui UiAnalyzing, Ui UiDetectedBinary, Ui UiUploading,
            Put \<lparr>put_owner = owner, put_repo = ustr ''repo'', put_path = ustr ''a.bin'',
                 put_content = [1, 0, 2], put_encoding = ustr ''base64'', put_message = msg\<rparr>])"
  by (simp add: process_file_def readable_entry_def Let_def is_binary_def ui_Some example_paths
      failure_first_lib_def create_file_with_encoding_def example_api_def raise_for_status_def)

subsection \<open>A failing entry\<close>

text \<open>
  Claim C1. In the loop of the push, over the entries in the order of the archive:

  \<^item> an entry that is no directory and has a path left, and whose processing raises, ends
    its iteration normally, with the failure counter one higher and the success counter
    unchanged;
  \<^item> the loop over any entries \<open>before\<close> ends normally, however many of them failed, with
    every one of them counted once;
  \<^item> the entry \<open>g\<close> behind them is then handed to \<^verbatim>\<open>_process_file\<close> in the state they left,
    failures included: when that call uploads the file, \<open>g\<close> is counted a success, the
    requests of the call are in the trace, and the loop goes on behind \<open>g\<close>;
  \<^item> the push of an archive that opens, with the repository created, is that loop from the
    state \<open>state_before_loop\<close>, and returns \<^verbatim>\<open>True\<close> with every such entry counted once.
\<close>

theorem entry_failure_is_counted_and_push_continues:
  "(file_info \<in> set archive \<and> total_files st = length (filter (\<lambda>f. \<not> is_dir f) archive)
      \<and> attempted repo_name file_info
      \<and> processing_raises l api repo_owner repo_name commit_message status_container file_info st
    \<longrightarrow> (\<exists>st'. loop_body l api repo_owner repo_name commit_message status_container file_info st
                 = Inr st'
             \<and> error_count st' = error_count st + 1
             \<and> success_count st' = success_count st
             \<and> for_loop l api repo_owner repo_name commit_message status_container
                  (file_info # infos) st
                 = for_loop l api repo_owner repo_name commit_message status_container infos st'))
   \<and> (status_container = None \<or> 0 < total_files st
    \<longrightarrow> (\<exists>reached. for_loop l api repo_owner repo_name commit_message status_container before st
                 = Inr reached
             \<and> total_files reached = total_files st
             \<and> success_count reached + error_count reached
                 = success_count st + error_count st
                   + length (filter (attempted repo_name) before)))
   \<and> (for_loop l api repo_owner repo_name commit_message status_container before st = Inr reached
      \<and> (status_container = None \<or> 0 < total_files reached)
      \<and> attempted repo_name g
      \<and> placeholder_at_call status_container reached = Some p
      \<and> process_file l api repo_owner repo_name g commit_message (Some p)
           (events_at_call status_container repo_name g reached) = (Inr True, tr)
    \<longrightarrow> loop_body l api repo_owner repo_name commit_message status_container g reached =
          Inr (reached\<lparr>current_file := current_file reached + 1, status_placeholder := Some p,
                   success_count := success_count reached + 1,
                   events := ui status_container UiUploaded tr\<rparr>)
        \<and> for_loop l api repo_owner repo_name commit_message status_container
             (before @ g # after) st =
           for_loop l api repo_owner repo_name commit_message status_container after
             (reached\<lparr>current_file := current_file reached + 1, status_placeholder := Some p,
                  success_count := success_count reached + 1,
                  events := ui status_container UiUploaded tr\<rparr>))
   \<and> (zipfile_open l zip_content = Inr archive
      \<and> fst (create_repository api repo_name False []) = Inr (Some url) \<and> url \<noteq> []
    \<longrightarrow> (\<exists>st4. for_loop l api repo_owner repo_name commit_message status_container archive
                  (state_before_loop status_container repo_name archive) = Inr st4
             \<and> push_zip_to_repo l api repo_owner repo_name zip_content commit_message
                  status_container =
                (Inr True,
                 st4\<lparr>events := ui status_container
                        (UiPushCompleted (success_count st4) (error_count st4))
                        (ui status_container UiProgressDone (events st4))\<rparr>)
             \<and> success_count st4 + error_count st4
                 = length (filter (attempted repo_name) archive)))"
proof (intro conjI impI)
  assume h: "file_info \<in> set archive
      \<and> total_files st = length (filter (\<lambda>f. \<not> is_dir f) archive)
      \<and> attempted repo_name file_info
      \<and> processing_raises l api repo_owner repo_name commit_message status_container file_info st"
  then have "file_info \<in> set (filter (\<lambda>f. \<not> is_dir f) archive)"
    by (simp add: attempted_def)
  then have "0 < length (filter (\<lambda>f. \<not> is_dir f) archive)"
    by (rule length_pos_if_in_set)
  with h have t: "status_container = None \<or> 0 < total_files st" by simp
  from h have a: "attempted repo_name file_info" by simp
  from h have r: "processing_raises l api repo_owner repo_name commit_message status_container
      file_info st" by simp
  from loop_body_raises [OF a t r] obtain st' where
    s: "loop_body l api repo_owner repo_name commit_message status_container file_info st = Inr st'"
      "error_count st' = error_count st + 1" "success_count st' = success_count st"
    by blast
  from s(1) have "for_loop l api repo_owner repo_name commit_message status_container
      (file_info # infos) st
      = for_loop l api repo_owner repo_name commit_message status_container infos st'"
    by simp
  with s show "\<exists>st'. loop_body l api repo_owner repo_name commit_message status_container
        file_info st = Inr st'
      \<and> error_count st' = error_count st + 1
      \<and> success_count st' = success_count st
      \<and> for_loop l api repo_owner repo_name commit_message status_container
           (file_info # infos) st
          = for_loop l api repo_owner repo_name commit_message status_container infos st'"
    by blast
next
  assume "status_container = None \<or> 0 < total_files st"
  then have "status_container = None \<or> 0 < total_files st
      \<or> (\<forall>f \<in> set before. \<not> attempted repo_name f)" by blast
  from for_loop_completes [OF this]
  show "\<exists>reached. for_loop l api repo_owner repo_name commit_message status_container before st
        = Inr reached
      \<and> total_files reached = total_files st
      \<and> success_count reached + error_count reached
          = success_count st + error_count st + length (filter (attempted repo_name) before)"
    by blast
next
  assume h: "for_loop l api repo_owner repo_name commit_message status_container before st = Inr reached
      \<and> (status_container = None \<or> 0 < total_files reached)
      \<and> attempted repo_name g
      \<and> placeholder_at_call status_container reached = Some p
      \<and> process_file l api repo_owner repo_name g commit_message (Some p)
           (events_at_call status_container repo_name g reached) = (Inr True, tr)"
  then show "loop_body l api repo_owner repo_name commit_message status_container g reached =
      Inr (reached\<lparr>current_file := current_file reached + 1, status_placeholder := Some p,
               success_count := success_count reached + 1,
               events := ui status_container UiUploaded tr\<rparr>)"
    using loop_body_uploads [of repo_name g status_container reached p l api repo_owner
        commit_message tr] by blast
next
  assume h: "for_loop l api repo_owner repo_name commit_message status_container before st = Inr reached
      \<and> (status_container = None \<or> 0 < total_files reached)
      \<and> attempted repo_name g
      \<and> placeholder_at_call status_container reached = Some p
      \<and> process_file l api repo_owner repo_name g commit_message (Some p)
           (events_at_call status_container repo_name g reached) = (Inr True, tr)"
  then have b: "loop_body l api repo_owner repo_name commit_message status_container g reached =
      Inr (reached\<lparr>current_file := current_file reached + 1, status_placeholder := Some p,
               success_count := success_count reached + 1,
               events := ui status_container UiUploaded tr\<rparr>)"
    using loop_body_uploads [of repo_name g status_container reached p l api repo_owner
        commit_message tr] by blast
  from h have "for_loop l api repo_owner repo_name commit_message status_container
      (before @ g # after) st =
      for_loop l api repo_owner repo_name commit_message status_container (g # after) reached"
    by (simp add: for_loop_append)
  also have "\<dots> = for_loop l api repo_owner repo_name commit_message status_container after
      (reached\<lparr>current_file := current_file reached + 1, status_placeholder := Some p,
           success_count := success_count reached + 1,
           events := ui status_container UiUploaded tr\<rparr>)"
    by (simp only: for_loop.simps b sum.case)
  finally show "for_loop l api repo_owner repo_name commit_message status_container
        (before @ g # after) st =
      for_loop l api repo_owner repo_name commit_message status_container after
        (reached\<lparr>current_file := current_file reached + 1, status_placeholder := Some p,
             success_count := success_count reached + 1,
             events := ui status_container UiUploaded tr\<rparr>)" .
next
  assume h: "zipfile_open l zip_content = Inr archive
      \<and> fst (create_repository api repo_name False []) = Inr (Some url) \<and> url \<noteq> []"
  then show "\<exists>st4. for_loop l api repo_owner repo_name commit_message status_container archive
        (state_before_loop status_container repo_name archive) = Inr st4
      \<and> push_zip_to_repo l api repo_owner repo_name zip_content commit_message
           status_container =
         (Inr True,
          st4\<lparr>events := ui status_container
                 (UiPushCompleted (success_count st4) (error_count st4))
                 (ui status_container UiProgressDone (events st4))\<rparr>)
      \<and> success_count st4 + error_count st4 = length (filter (attempted repo_name) archive)"
    using push_runs_loop [of l zip_content archive api repo_name url repo_owner commit_message
        status_container] by blast
qed

theorem entry_failure_is_counted_and_push_continues_witness:
  "\<exists>st. push_zip_to_repo failure_first_lib (example_api True) (ustr ''o'') (ustr ''repo'')
           [80, 75] (ustr ''push'') (Some Container) = (Inr True, st)
      \<and> error_count st = 1 \<and> success_count st = 1
      \<and> Put \<lparr>put_owner = ustr ''o'', put_repo = ustr ''repo'', put_path = ustr ''a.bin'',
              put_content = [1, 0, 2], put_encoding = ustr ''base64'',
              put_message = ustr ''push''\<rparr> \<in> set (events st)"
proof -
  let ?c = "Some Container"
  let ?archive = "[unreadable_entry, readable_entry]"
  let ?st0 = "state_before_loop ?c (ustr ''repo'') ?archive"
  note inst = entry_failure_is_counted_and_push_continues
    [where l = failure_first_lib and api = "example_api True" and repo_owner = "ustr ''o''"
       and repo_name = "ustr ''repo''" and commit_message = "ustr ''push''"
       and status_container = ?c and archive = ?archive and zip_content = "[80, 75]"
       and url = "ustr ''https://github.com/o/repo''" and st = ?st0
       and file_info = unreadable_entry and infos = "[]" and before = "[unreadable_entry]"
       and g = readable_entry and after = "[]" and p = Placeholder]
  have d: "\<not> is_dir unreadable_entry" "\<not> is_dir readable_entry"
    by (simp_all add: unreadable_entry_def readable_entry_def)
  have nd: "filter (\<lambda>f. \<not> is_dir f) ?archive = ?archive"
    by (simp add: d)
  have tot: "total_files ?st0 = 2" by (simp add: state_before_loop_def d)
  have raises: "processing_raises failure_first_lib (example_api True) (ustr ''o'') (ustr ''repo'')
      (ustr ''push'') ?c unreadable_entry ?st0"
    by (simp add: processing_raises_def placeholder_at_call_def unreadable_entry_raises)
  have "unreadable_entry \<in> set ?archive
      \<and> total_files ?st0 = length (filter (\<lambda>f. \<not> is_dir f) ?archive)
      \<and> attempted (ustr ''repo'') unreadable_entry
      \<and> processing_raises failure_first_lib (example_api True) (ustr ''o'') (ustr ''repo'')
          (ustr ''push'') ?c unreadable_entry ?st0"
    using raises by (simp add: tot d example_entries_attempted)
  with inst obtain st1 where
    first: "loop_body failure_first_lib (example_api True) (ustr ''o'') (ustr ''repo'')
        (ustr ''push'') ?c unreadable_entry ?st0 = Inr st1"
    and e1: "error_count st1 = error_count ?st0 + 1"
    and s1: "success_count st1 = success_count ?st0"
    by blast
  from first have loop1: "for_loop failure_first_lib (example_api True) (ustr ''o'') (ustr ''repo'')
      (ustr ''push'') ?c [unreadable_entry] ?st0 = Inr st1"
    by simp
  have "?c = None \<or> 0 < total_files ?st0" by (simp add: tot)
  with inst loop1 have t1: "total_files st1 = total_files ?st0" by auto
  have up: "process_file failure_first_lib (example_api True) (ustr ''o'') (ustr ''repo'')
      readable_entry (ustr ''push'') (Some Placeholder)
      (events_at_call ?c (ustr ''repo'') readable_entry st1) =
      (Inr True,
       events_at_call ?c (ustr ''repo'') readable_entry st1 @
         [Ui UiAnalyzing, Ui UiDetectedBinary, Ui UiUploading,
          Put \<lparr>put_owner = ustr ''o'', put_repo = ustr ''repo'', put_path = ustr ''a.bin'',
               put_content = [1, 0, 2], put_encoding = ustr ''base64'',
               put_message = ustr ''push''\<rparr>])"
    by (rule readable_entry_uploads)
  have hyp3: "for_loop failure_first_lib (example_api True) (ustr ''o'') (ustr ''repo'')
        (ustr ''push'') ?c [unreadable_entry] ?st0 = Inr st1
      \<and> (?c = None \<or> 0 < total_files st1)
      \<and> attempted (ustr ''repo'') readable_entry
      \<and> placeholder_at_call ?c st1 = Some Placeholder
      \<and> process_file failure_first_lib (example_api True) (ustr ''o'') (ustr ''repo'')
          readable_entry (ustr ''push'') (Some Placeholder)
          (events_at_call ?c (ustr ''repo'') readable_entry st1) =
          (Inr True,
           events_at_call ?c (ustr ''repo'') readable_entry st1 @
             [Ui UiAnalyzing, Ui UiDetectedBinary, Ui UiUploading,
              Put \<lparr>put_owner = ustr ''o'', put_repo = ustr ''repo'', put_path = ustr ''a.bin'',
                   put_content = [1, 0, 2], put_encoding = ustr ''base64'',
                   put_message = ustr ''push''\<rparr>])"
    using loop1 up by (simp add: t1 tot example_entries_attempted placeholder_at_call_def)
  let ?tr = "events_at_call ?c (ustr ''repo'') readable_entry st1 @
             [Ui UiAnalyzing, Ui UiDetectedBinary, Ui UiUploading,
              Put \<lparr>put_owner = ustr ''o'', put_repo = ustr ''repo'', put_path = ustr ''a.bin'',
                   put_content = [1, 0, 2], put_encoding = ustr ''base64'',
                   put_message = ustr ''push''\<rparr>]"
  let ?st2 = "st1\<lparr>current_file := current_file st1 + 1, status_placeholder := Some Placeholder,
      success_count := success_count st1 + 1, events := ui ?c UiUploaded ?tr\<rparr>"
  from inst [where reached = st1 and tr = ?tr] hyp3
  have whole: "for_loop failure_first_lib (example_api True) (ustr ''o'') (ustr ''repo'')
      (ustr ''push'') ?c ([unreadable_entry] @ readable_entry # []) ?st0 =
      for_loop failure_first_lib (example_api True) (ustr ''o'') (ustr ''repo'')
        (ustr ''push'') ?c [] ?st2"
    by blast
  then have loop: "for_loop failure_first_lib (example_api True) (ustr ''o'') (ustr ''repo'')
      (ustr ''push'') ?c ?archive ?st0 = Inr ?st2"
    by simp
  have "zipfile_open failure_first_lib [80, 75] = Inr ?archive
      \<and> fst (create_repository (example_api True) (ustr ''repo'') False [])
          = Inr (Some (ustr ''https://github.com/o/repo''))
      \<and> ustr ''https://github.com/o/repo'' \<noteq> []"
    by (simp add: failure_first_lib_def example_created) (simp add: ustr_def)
  with inst obtain st4 where
    l4: "for_loop failure_first_lib (example_api True) (ustr ''o'') (ustr ''repo'')
        (ustr ''push'') ?c ?archive ?st0 = Inr st4"
    and p4: "push_zip_to_repo failure_first_lib (example_api True) (ustr ''o'') (ustr ''repo'')
        [80, 75] (ustr ''push'') ?c =
        (Inr True, st4\<lparr>events := ui ?c (UiPushCompleted (success_count st4) (error_count st4))
           (ui ?c UiProgressDone (events st4))\<rparr>)"
    by blast
  from l4 loop have st4: "st4 = ?st2" by simp
  have e0: "error_count ?st0 = 0" "success_count ?st0 = 0" by (simp_all add: state_before_loop_def)
  show ?thesis
    by (rule exI, intro conjI, rule p4) (simp_all add: st4 e1 s1 e0 ui_Some)
qed

subsection \<open>A push without a status container\<close>

text \<open>
  Claim C2. With no status container, \<open>status_placeholder\<close> is never assigned, so reading it
  at the call of \<^verbatim>\<open>_process_file\<close> raises \<^verbatim>\<open>UnboundLocalError\<close>, a \<^verbatim>\<open>NameError\<close>, inside the
  \<^verbatim>\<open>try\<close> of the entry: every entry that is no directory and has a path left only adds one to
  the failure counter. On an archive that opens, with the repository created, the push
  therefore returns \<^verbatim>\<open>True\<close> with no success, one failure per such entry and, after the
  creation of the repository, not one request sent.
\<close>

theorem push_without_status_container_uploads_nothing:
  "(zipfile_open l zip_content = Inr infos
      \<and> fst (create_repository api repo_name False []) = Inr (Some url) \<and> url \<noteq> []
    \<longrightarrow> push_zip_to_repo l api repo_owner repo_name zip_content commit_message None =
          (Inr True,
           \<lparr>total_files = length (filter (\<lambda>f. \<not> is_dir f) infos), success_count = 0,
            error_count = length (filter (attempted repo_name) infos),
            current_file = length (filter (\<lambda>f. \<not> is_dir f) infos),
            status_placeholder = None, events = [Post repo_name False]\<rparr>))
   \<and> (attempted repo_name file_info \<and> status_placeholder st = None
    \<longrightarrow> loop_body l api repo_owner repo_name commit_message None file_info st =
          Inr (st\<lparr>current_file := current_file st + 1, error_count := error_count st + 1\<rparr>))
   \<and> is_NameError UnboundLocalError"
proof (intro conjI impI)
  assume "zipfile_open l zip_content = Inr infos
      \<and> fst (create_repository api repo_name False []) = Inr (Some url) \<and> url \<noteq> []"
  then show "push_zip_to_repo l api repo_owner repo_name zip_content commit_message None =
      (Inr True,
       \<lparr>total_files = length (filter (\<lambda>f. \<not> is_dir f) infos), success_count = 0,
        error_count = length (filter (attempted repo_name) infos),
        current_file = length (filter (\<lambda>f. \<not> is_dir f) infos),
        status_placeholder = None, events = [Post repo_name False]\<rparr>)"
    using push_unbound [of l zip_content infos api repo_name url] by blast
next
  assume "attempted repo_name file_info \<and> status_placeholder st = None"
  then show "loop_body l api repo_owner repo_name commit_message None file_info st =
      Inr (st\<lparr>current_file := current_file st + 1, error_count := error_count st + 1\<rparr>)"
    using loop_body_unbound [of repo_name file_info st] by blast
next
  show "is_NameError UnboundLocalError" by simp
qed

theorem push_without_status_container_uploads_nothing_witness:
  "push_zip_to_repo example_lib (example_api True) (ustr ''o'') (ustr ''repo'') [80, 75]
     (ustr ''push'') None =
     (Inr True,
      \<lparr>total_files = 2, success_count = 0, error_count = 2, current_file = 2,
       status_placeholder = None, events = [Post (ustr ''repo'') False]\<rparr>)"
proof -
  have n: "length example_infos = 3" by (simp add: example_infos_def)
  show ?thesis
    using push_without_status_container_uploads_nothing
      [of example_lib "[80, 75]" example_infos "example_api True" "ustr ''repo''"
          "ustr ''https://github.com/o/repo''" "ustr ''o''" "ustr ''push''"]
      example_open(1) example_created(1)
    by (simp add: example_attempted n) (simp add: ustr_def)
qed

subsection \<open>A repository that is not created\<close>

text \<open>
  Claim C3. When the archive opens and \<^verbatim>\<open>create_repository\<close> returns \<^verbatim>\<open>None\<close>, the push returns
  \<^verbatim>\<open>False\<close> at once: no file write is sent, the counters of successes, of failures and of
  entries seen are zero, and the closing tally is not shown. \<^verbatim>\<open>create_repository\<close> returns
  \<^verbatim>\<open>None\<close> when the request raises a \<^verbatim>\<open>RequestException\<close> or is answered with an error status.
\<close>

theorem failed_repository_creation_aborts_push:
  "(zipfile_open l zip_content = Inr infos
      \<and> fst (create_repository api repo_name False []) = Inr None
    \<longrightarrow> (\<exists>st. push_zip_to_repo l api repo_owner repo_name zip_content commit_message
                  status_container = (Inr False, st)
            \<and> filter is_put (events st) = [] \<and> filter is_tally (events st) = []
            \<and> success_count st = 0 \<and> error_count st = 0 \<and> current_file st = 0))
   \<and> (post_repos api repo_name False = Inl e \<and> is_RequestException e
    \<longrightarrow> fst (create_repository api repo_name False []) = Inr None)
   \<and> (post_repos api repo_name False = Inr response \<and> raise_for_status response
    \<longrightarrow> fst (create_repository api repo_name False []) = Inr None)"
proof (intro conjI impI)
  assume h: "zipfile_open l zip_content = Inr infos
      \<and> fst (create_repository api repo_name False []) = Inr None"
  show "\<exists>st. push_zip_to_repo l api repo_owner repo_name zip_content commit_message
        status_container = (Inr False, st)
      \<and> filter is_put (events st) = [] \<and> filter is_tally (events st) = []
      \<and> success_count st = 0 \<and> error_count st = 0 \<and> current_file st = 0"
    using h push_not_created [of l zip_content infos api repo_name repo_owner commit_message
        status_container]
    by (simp add: filter_ui filter_tally_ui)
next
  assume "post_repos api repo_name False = Inl e \<and> is_RequestException e"
  then show "fst (create_repository api repo_name False []) = Inr None"
    using create_repository_fails(1) [of api repo_name False e "[]"] by blast
next
  assume "post_repos api repo_name False = Inr response \<and> raise_for_status response"
  then show "fst (create_repository api repo_name False []) = Inr None"
    using create_repository_fails(2) [of api repo_name False response "[]"] by blast
qed

theorem failed_repository_creation_aborts_push_witness:
  "post_repos (example_api False) (ustr ''repo'') False = Inl ConnectionError
   \<and> is_RequestException ConnectionError
   \<and> fst (create_repository (example_api False) (ustr ''repo'') False []) = Inr None
   \<and> (\<exists>st. push_zip_to_repo example_lib (example_api False) (ustr ''o'') (ustr ''repo'') [80, 75]
              (ustr ''push'') (Some Container) = (Inr False, st)
         \<and> filter is_put (events st) = [] \<and> filter is_tally (events st) = []
         \<and> success_count st = 0 \<and> error_count st = 0 \<and> current_file st = 0)"
proof -
  have p: "post_repos (example_api False) (ustr ''repo'') False = Inl ConnectionError"
    by (simp add: example_api_def)
  show ?thesis
    using failed_repository_creation_aborts_push
      [of example_lib "[80, 75]" example_infos "example_api False" "ustr ''repo''" "ustr ''o''"
          "ustr ''push''" "Some Container" ConnectionError]
      example_open(1) p
    by simp
qed

subsection \<open>Bytes that are no archive\<close>

text \<open>
  Claim C8. The first opening of the archive is outside every \<^verbatim>\<open>try\<close>: when the bytes are no
  ZIP archive, \<^verbatim>\<open>BadZipFile\<close> leaves \<^verbatim>\<open>push_zip_to_repo\<close>, and until then nothing but the header
  of the status table has happened: no repository was created, no file written, no entry
  counted.
\<close>

theorem invalid_archive_aborts_push:
  "zipfile_open l zip_content = Inl BadZipFile
   \<longrightarrow> (\<exists>st. push_zip_to_repo l api repo_owner repo_name zip_content commit_message
                status_container = (Inl BadZipFile, st)
          \<and> filter is_post (events st) = [] \<and> filter is_put (events st) = []
          \<and> success_count st = 0 \<and> error_count st = 0 \<and> current_file st = 0)"
  using push_bad_zip [of l zip_content BadZipFile api repo_owner repo_name commit_message
      status_container]
  by (simp add: filter_ui)

theorem invalid_archive_aborts_push_witness:
  "zipfile_open example_lib [1, 2, 3] = Inl BadZipFile
   \<and> (\<exists>st. push_zip_to_repo example_lib (example_api True) (ustr ''o'') (ustr ''repo'') [1, 2, 3]
              (ustr ''push'') (Some Container) = (Inl BadZipFile, st)
         \<and> filter is_post (events st) = [] \<and> filter is_put (events st) = []
         \<and> success_count st = 0 \<and> error_count st = 0 \<and> current_file st = 0)"
  using invalid_archive_aborts_push
    [of example_lib "[1, 2, 3]" "example_api True" "ustr ''o''" "ustr ''repo''" "ustr ''push''"
        "Some Container"]
    example_open(2)
  by simp

section \<open>Proofs: the model call\<close>

lemma get_completion_tool_use:
  assumes "bedrock (converse_params prompt chat_history system_prompt) = Inr response_message"
    and "first_tool_use (message_content response_message) = Some tool_use_block"
  shows "get_completion bedrock prompt chat_history system_prompt =
     Inr (Some (if ustr ''response'' \<in> fst ` set (input tool_use_block)
                then ToolInput (input tool_use_block)
                else GenericRequest response_message))"
  using assms by (simp add: get_completion_def find_tool_use Let_def)

lemma get_completion_client_error:
  assumes "bedrock (converse_params prompt chat_history system_prompt) = Inl (ClientError text)"
  shows "get_completion bedrock prompt chat_history system_prompt = Inr None"
  using assms by (simp add: get_completion_def)

lemma example_first_tool_use:
  "first_tool_use (message_content reply_without_response) =
     Some \<lparr>toolUseId = ustr ''t1'', tool_name = ustr ''code'',
           input = [(ustr ''request_type'', JString (ustr ''code''))]\<rparr>"
  "first_tool_use (message_content reply_with_response) =
     Some \<lparr>toolUseId = ustr ''t1'', tool_name = ustr ''chat'',
           input = [(ustr ''request_type'', JString (ustr ''chat'')),
                    (ustr ''response'', JString (ustr ''hello''))]\<rparr>"
  "first_tool_use (message_content reply_text_only) = None"
  by (simp_all add: reply_without_response_def reply_with_response_def reply_text_only_def)

text \<open>
  Claim C9, as stated, fails twice. A reply whose first tool use has an input without the
  key \<^verbatim>\<open>response\<close> is not answered with that input but with the generic request; and a reply
  with no tool use at all is not answered with the generic request: \<^verbatim>\<open>TypeError\<close> leaves
  \<^verbatim>\<open>get_completion\<close>.
\<close>

theorem get_completion_first_tool_input_counterexample:
  "get_completion (\<lambda>params. Inr reply_without_response) (ustr ''hi'') None None
     = Inr (Some (GenericRequest reply_without_response))
   \<and> get_completion (\<lambda>params. Inr reply_without_response) (ustr ''hi'') None None
     \<noteq> Inr (Some (ToolInput [(ustr ''request_type'', JString (ustr ''code''))]))
   \<and> first_tool_use (message_content reply_text_only) = None
   \<and> get_completion (\<lambda>params. Inr reply_text_only) (ustr ''hi'') None None = Inl TypeError
   \<and> get_completion (\<lambda>params. Inr reply_text_only) (ustr ''hi'') None None
     \<noteq> Inr (Some (GenericRequest reply_text_only))"
proof -
  have a: "get_completion (\<lambda>params. Inr reply_without_response) (ustr ''hi'') None None
      = Inr (Some (GenericRequest reply_without_response))"
    by (simp add: get_completion_def find_tool_use example_first_tool_use Let_def)
       (simp add: ustr_def)
  have b: "get_completion (\<lambda>params. Inr reply_text_only) (ustr ''hi'') None None = Inl TypeError"
    by (simp add: get_completion_def find_tool_use example_first_tool_use)
  show ?thesis by (simp add: a b example_first_tool_use)
qed

text \<open>
  Claim C9, amended. When the reply has a tool use, \<^verbatim>\<open>get_completion\<close> returns the input of the
  first one if that input has the key \<^verbatim>\<open>response\<close>, and otherwise the generic request that
  wraps the whole message; \<^verbatim>\<open>get_response\<close> hands the same on. A \<^verbatim>\<open>ClientError\<close> of the call is
  caught: \<^verbatim>\<open>get_completion\<close> and \<^verbatim>\<open>get_response\<close> return \<^verbatim>\<open>None\<close>.
\<close>

theorem get_completion_returns_tool_input_or_generic_request:
  "(bedrock (converse_params prompt chat_history system_prompt) = Inr response_message
      \<and> first_tool_use (message_content response_message) = Some tool_use_block
    \<longrightarrow> get_completion bedrock prompt chat_history system_prompt =
          Inr (Some (if ustr ''response'' \<in> fst ` set (input tool_use_block)
                     then ToolInput (input tool_use_block)
                     else GenericRequest response_message)))
   \<and> (bedrock (converse_params prompt chat_history (Some qoonity_head)) = Inr response_message
      \<and> first_tool_use (message_content response_message) = Some tool_use_block
    \<longrightarrow> get_response bedrock qoonity_head prompt chat_history =
          Some (if ustr ''response'' \<in> fst ` set (input tool_use_block)
                then ToolInput (input tool_use_block)
                else GenericRequest response_message))
   \<and> (bedrock (converse_params prompt chat_history system_prompt) = Inl (ClientError text)
    \<longrightarrow> get_completion bedrock prompt chat_history system_prompt = Inr None)
   \<and> (bedrock (converse_params prompt chat_history (Some qoonity_head)) = Inl (ClientError text)
    \<longrightarrow> get_response bedrock qoonity_head prompt chat_history = None)"
proof (intro conjI impI)
  assume "bedrock (converse_params prompt chat_history system_prompt) = Inr response_message
      \<and> first_tool_use (message_content response_message) = Some tool_use_block"
  then show "get_completion bedrock prompt chat_history system_prompt =
      Inr (Some (if ustr ''response'' \<in> fst ` set (input tool_use_block)
                 then ToolInput (input tool_use_block)
                 else GenericRequest response_message))"
    by (simp add: get_completion_tool_use)
next
  assume h: "bedrock (converse_params prompt chat_history (Some qoonity_head)) = Inr response_message
      \<and> first_tool_use (message_content response_message) = Some tool_use_block"
  then have "get_completion bedrock prompt chat_history (Some qoonity_head) =
      Inr (Some (if ustr ''response'' \<in> fst ` set (input tool_use_block)
                 then ToolInput (input tool_use_block)
                 else GenericRequest response_message))"
    by (simp add: get_completion_tool_use)
  then show "get_response bedrock qoonity_head prompt chat_history =
      Some (if ustr ''response'' \<in> fst ` set (input tool_use_block)
            then ToolInput (input tool_use_block)
            else GenericRequest response_message)"
    by (auto simp: get_response_def)
next
  assume "bedrock (converse_params prompt chat_history system_prompt) = Inl (ClientError text)"
  then show "get_completion bedrock prompt chat_history system_prompt = Inr None"
    by (rule get_completion_client_error)
next
  assume "bedrock (converse_params prompt chat_history (Some qoonity_head))
      = Inl (ClientError text)"
  then have "get_completion bedrock prompt chat_history (Some qoonity_head) = Inr None"
    by (rule get_completion_client_error)
  then show "get_response bedrock qoonity_head prompt chat_history = None"
    by (simp add: get_response_def)
qed

theorem get_completion_returns_tool_input_or_generic_request_witness:
  "get_completion (\<lambda>params. Inr reply_with_response) (ustr ''hi'') None None
     = Inr (Some (ToolInput [(ustr ''request_type'', JString (ustr ''chat'')),
                             (ustr ''response'', JString (ustr ''hello''))]))
   \<and> get_response (\<lambda>params. Inr reply_without_response) (ustr ''head'') (ustr ''hi'') None
     = Some (GenericRequest reply_without_response)
   \<and> get_completion (\<lambda>params. Inl (ClientError (ustr ''throttled''))) (ustr ''hi'') None None
     = Inr None
   \<and> get_response (\<lambda>params. Inl (ClientError (ustr ''throttled''))) (ustr ''head'') (ustr ''hi'')
       None = None"
proof -
  have a: "get_completion (\<lambda>params. Inr reply_with_response) (ustr ''hi'') None None
     = Inr (Some (ToolInput [(ustr ''request_type'', JString (ustr ''chat'')),
                             (ustr ''response'', JString (ustr ''hello''))]))"
    using get_completion_returns_tool_input_or_generic_request
      [of "\<lambda>params. Inr reply_with_response" "ustr ''hi''" None None reply_with_response
          "\<lparr>toolUseId = ustr ''t1'', tool_name = ustr ''chat'',
            input = [(ustr ''request_type'', JString (ustr ''chat'')),
                     (ustr ''response'', JString (ustr ''hello''))]\<rparr>"]
    by (simp add: example_first_tool_use)
  have b: "get_response (\<lambda>params. Inr reply_without_response) (ustr ''head'') (ustr ''hi'') None
     = Some (GenericRequest reply_without_response)"
    using get_completion_returns_tool_input_or_generic_request
      [of "\<lambda>params. Inr reply_without_response" "ustr ''hi''" None None reply_without_response
          "\<lparr>toolUseId = ustr ''t1'', tool_name = ustr ''code'',
            input = [(ustr ''request_type'', JString (ustr ''code''))]\<rparr>" "ustr ''head''"]
    by (simp add: example_first_tool_use) (simp add: ustr_def)
  have c: "get_completion (\<lambda>params. Inl (ClientError (ustr ''throttled''))) (ustr ''hi'') None None
     = Inr None
   \<and> get_response (\<lambda>params. Inl (ClientError (ustr ''throttled''))) (ustr ''head'') (ustr ''hi'')
       None = None"
    using get_completion_returns_tool_input_or_generic_request
      [of "\<lambda>params. Inl (ClientError (ustr ''throttled''))" "ustr ''hi''" None None _ _
          "ustr ''head''" "ustr ''throttled''"]
    by simp
  from a b c show ?thesis by blast
qed

end
